theory Spec2Isabelle
  imports
    Main
    "HOL-Library.Char_ord"
    "HOL-Library.List_Lexorder"
    "HOL-Library.Product_Lexorder"
    "HOL-Library.Multiset"
begin

section \<open>Method completion of the language server (main/lsp/requests/completion.cc)\<close>

text \<open>
  The development embeds the candidate resolution and ranking code of
  \<^verbatim>\<open>src/main/lsp/requests/completion.cc\<close>. The symbol table, the name table and the
  types are owned by the type checker; only the parts that the source file reads are
  modelled. Where a name of the source is taken by a constant of the logic or by a field
  of a record, the variable is renamed: \<open>symb\<close> for \<^verbatim>\<open>sym\<close>, \<open>recv\<close> for
  \<^verbatim>\<open>receiver\<close>, \<open>d\<close> for \<^verbatim>\<open>depth\<close>.
\<close>

subsection \<open>Symbol table, names and types\<close>

text \<open>
  A \<^verbatim>\<open>core::SymbolRef\<close> and a \<^verbatim>\<open>core::NameRef\<close> are indices (\<^verbatim>\<open>_id\<close>) into the
  tables of the global state; \<^verbatim>\<open>exists()\<close> holds of every symbol but the one with index
  0. The indices are only compared, never computed with, so they are natural numbers.

  Modelled from the spec: \<^verbatim>\<open>core::Symbols::root()\<close> is declared by the symbol table; it
  is the root namespace, at which the walk over lexical owners ends. The index given to it
  here plays no part in any result below.
\<close>

type_synonym SymbolRef = nat
type_synonym NameRef = nat

definition noSymbol :: SymbolRef where
  "noSymbol = 0"

definition root :: SymbolRef where
  "root = 1"

definition exists :: "SymbolRef \<Rightarrow> bool" where
  "exists symb = (symb \<noteq> noSymbol)"

datatype NameKind = UTF8 | UNIQUE | CONSTANT

datatype UniqueNameKind = MangleRename | Overload | OtherUniqueName

record Name =
  kind :: NameKind
  uniqueNameKind :: UniqueNameKind
  shortName :: string

text \<open>
  \<^verbatim>\<open>members()\<close> is a hash map from member name to symbol. It is modelled by the
  sequence of its entries in the order in which a range-for loop visits them.
  \<^verbatim>\<open>membersStableOrderSlow\<close> is computed by the symbol table; the sequence it
  returns is a field of its own.
\<close>

record Symbol =
  name :: NameRef
  owner :: SymbolRef
  isMethod :: bool
  isStaticField :: bool
  isClassOrModule :: bool
  isClassOrModuleLinearizationComputed :: bool
  mixins :: "SymbolRef list"
  superClass :: SymbolRef
  members :: "(NameRef \<times> SymbolRef) list"
  membersStableOrderSlow :: "(NameRef \<times> SymbolRef) list"

text \<open>
  Modelled from the spec: \<^verbatim>\<open>hasSimilarName\<close> is declared outside this file (the
  Name-Similarity oracle, a pure and deterministic function of a name and the query
  prefix). It is a field of the global state here, so every result below holds for any
  such oracle.
\<close>

record GlobalState =
  symbolData :: "SymbolRef \<Rightarrow> Symbol"
  nameData :: "NameRef \<Rightarrow> Name"
  hasSimilarName :: "NameRef \<Rightarrow> string \<Rightarrow> bool"

text \<open>
  \<^verbatim>\<open>core::TypePtr\<close> points to an immutable tree. \<^verbatim>\<open>typecase\<close> tries the classes
  \<^verbatim>\<open>ClassType\<close>, \<^verbatim>\<open>AppliedType\<close>, \<^verbatim>\<open>AndType\<close>, \<^verbatim>\<open>ProxyType\<close> in this order and
  falls back on \<^verbatim>\<open>Type\<close>; \<open>OrType\<close> and \<open>OpaqueType\<close> stand for the types that only
  the fallback matches.
\<close>

datatype Type =
    ClassType SymbolRef
  | AppliedType SymbolRef "Type list"
  | AndType Type Type
  | OrType Type Type
  | ProxyType Type
  | OpaqueType

text \<open>A type constraint is only passed along; it is identified by a handle.\<close>

type_synonym TypeConstraint = nat

datatype fault =
    LinearizationNotComputed
  | OverwriteReceiverType
  | OverwriteConstr
  | EmptyVectorAccess
  | SymbolDoesNotExist

text \<open>
  A computation either does not return (\<open>None\<close>), stops at a failed \<^verbatim>\<open>ENFORCE\<close>
  (\<open>Some (Inl f)\<close>) or returns a value (\<open>Some (Inr v)\<close>).
\<close>

type_synonym 'a outcome = "(fault + 'a) option"

subsection \<open>Ancestors\<close>

text \<open>
  \<^verbatim>\<open>ancestorsImpl\<close> follows the superclass links for as long as there is one; on a
  cyclic chain it does not return, which is the value \<open>None\<close>.
\<close>

partial_function (option) ancestorsImpl ::
  "GlobalState \<Rightarrow> SymbolRef \<Rightarrow> SymbolRef list \<Rightarrow> (fault + SymbolRef list) option" where
  "ancestorsImpl gs symb acc =
     (if \<not> isClassOrModuleLinearizationComputed (symbolData gs symb)
      then Some (Inl LinearizationNotComputed)
      else if exists (superClass (symbolData gs symb))
      then ancestorsImpl gs (superClass (symbolData gs symb))
             (acc @ symb # mixins (symbolData gs symb))
      else Some (Inr (acc @ symb # mixins (symbolData gs symb))))"

definition ancestors :: "GlobalState \<Rightarrow> SymbolRef \<Rightarrow> SymbolRef list outcome" where
  "ancestors gs recv = ancestorsImpl gs recv []"

subsection \<open>Candidates of one class\<close>

record SimilarMethod =
  depth :: int
  receiver :: SymbolRef
  "method" :: SymbolRef
  receiverType :: "Type option"
  constr :: "TypeConstraint option"

text \<open>
  The field \<open>depth\<close> is a C++ \<^verbatim>\<open>int\<close>. It counts the elements of one ancestor
  vector, and the model counts in the integers: a vector of \<open>2\<^sup>3\<^sup>1\<close> symbols or more is
  outside the model. A null \<^verbatim>\<open>receiverType\<close> or \<^verbatim>\<open>constr\<close> is \<open>None\<close>.

  \<^verbatim>\<open>SimilarMethodsByName\<close> is a hash map from name to a vector of candidates; as for
  \<^verbatim>\<open>members()\<close>, the model is the sequence of its entries in iteration order.
  \<open>emplace_back_at result k x\<close> is \<^verbatim>\<open>result[k].emplace_back(x)\<close>: the entry of
  \<open>k\<close> is created when it is missing.
\<close>

type_synonym SimilarMethodsByName = "(NameRef \<times> SimilarMethod list) list"

fun emplace_back_at ::
  "SimilarMethodsByName \<Rightarrow> NameRef \<Rightarrow> SimilarMethod \<Rightarrow> SimilarMethodsByName" where
  "emplace_back_at [] k x = [(k, [x])]"
| "emplace_back_at ((k', xs) # m) k x =
     (if k' = k then (k', xs @ [x]) # m else (k', xs) # emplace_back_at m k x)"

fun scanMembers ::
  "GlobalState \<Rightarrow> string \<Rightarrow> SymbolRef \<Rightarrow> int \<Rightarrow> (NameRef \<times> SymbolRef) list \<Rightarrow>
   SimilarMethodsByName \<Rightarrow> SimilarMethodsByName" where
  "scanMembers gs prefix recv d [] result = result"
| "scanMembers gs prefix recv d ((memberName, memberSymbol) # rest) result =
     (if \<not> isMethod (symbolData gs memberSymbol)
      then scanMembers gs prefix recv d rest result
      else if hasSimilarName gs memberName prefix
      then scanMembers gs prefix recv d rest
             (emplace_back_at result memberName
                \<lparr>depth = d, receiver = recv, method = memberSymbol,
                 receiverType = None, constr = None\<rparr>)
      else scanMembers gs prefix recv d rest result)"

fun scanAncestors ::
  "GlobalState \<Rightarrow> string \<Rightarrow> SymbolRef \<Rightarrow> int \<Rightarrow> SymbolRef list \<Rightarrow>
   SimilarMethodsByName \<Rightarrow> SimilarMethodsByName" where
  "scanAncestors gs prefix recv d [] result = result"
| "scanAncestors gs prefix recv d (ancestor # rest) result =
     scanAncestors gs prefix recv (d + 1) rest
       (scanMembers gs prefix recv (d + 1) (members (symbolData gs ancestor)) result)"

definition similarMethodsForClass ::
  "GlobalState \<Rightarrow> SymbolRef \<Rightarrow> string \<Rightarrow> SimilarMethodsByName outcome" where
  "similarMethodsForClass gs recv prefix =
     (case ancestors gs recv of
        None \<Rightarrow> None
      | Some (Inl f) \<Rightarrow> Some (Inl f)
      | Some (Inr ancs) \<Rightarrow> Some (Inr (scanAncestors gs prefix recv (- 1) ancs [])))"

subsection \<open>Merging candidate maps\<close>

fun emplace_back_all ::
  "SimilarMethodsByName \<Rightarrow> NameRef \<Rightarrow> SimilarMethod list \<Rightarrow> SimilarMethodsByName" where
  "emplace_back_all result k [] = result"
| "emplace_back_all result k (similarMethod # rest) =
     emplace_back_all (emplace_back_at result k similarMethod) k rest"

text \<open>
  The loop of \<^verbatim>\<open>mergeSimilarMethods\<close> over the entries of \<^verbatim>\<open>left\<close>;
  \<open>map_of right methodName\<close> is \<^verbatim>\<open>right.find(methodName)\<close>, and its value is
  \<^verbatim>\<open>right[methodName]\<close> when the name is found.
\<close>

fun mergeLoop ::
  "SimilarMethodsByName \<Rightarrow> SimilarMethodsByName \<Rightarrow> SimilarMethodsByName \<Rightarrow>
   SimilarMethodsByName" where
  "mergeLoop [] right result = result"
| "mergeLoop ((methodName, leftSimilarMethods) # rest) right result =
     (case map_of right methodName of
        None \<Rightarrow> mergeLoop rest right result
      | Some rightSimilarMethods \<Rightarrow>
          mergeLoop rest right
            (emplace_back_all (emplace_back_all result methodName leftSimilarMethods)
               methodName rightSimilarMethods))"

definition mergeSimilarMethods ::
  "SimilarMethodsByName \<Rightarrow> SimilarMethodsByName \<Rightarrow> SimilarMethodsByName" where
  "mergeSimilarMethods left right = mergeLoop left right []"

subsection \<open>Candidates of a receiver type\<close>

text \<open>
  The two arguments of \<^verbatim>\<open>mergeSimilarMethods\<close> in the \<^verbatim>\<open>AndType\<close> case are
  evaluated left first here; C++ leaves the order open, and both orders give the same
  value whenever both calls return.
\<close>

fun similarMethodsForReceiver ::
  "GlobalState \<Rightarrow> Type \<Rightarrow> string \<Rightarrow> SimilarMethodsByName outcome" where
  "similarMethodsForReceiver gs (ClassType symbol) prefix =
     similarMethodsForClass gs symbol prefix"
| "similarMethodsForReceiver gs (AppliedType klass targs) prefix =
     similarMethodsForClass gs klass prefix"
| "similarMethodsForReceiver gs (AndType l r) prefix =
     (case similarMethodsForReceiver gs l prefix of
        None \<Rightarrow> None
      | Some (Inl f) \<Rightarrow> Some (Inl f)
      | Some (Inr lm) \<Rightarrow>
          (case similarMethodsForReceiver gs r prefix of
             None \<Rightarrow> None
           | Some (Inl f) \<Rightarrow> Some (Inl f)
           | Some (Inr rm) \<Rightarrow> Some (Inr (mergeSimilarMethods lm rm))))"
| "similarMethodsForReceiver gs (ProxyType underlying) prefix =
     similarMethodsForReceiver gs underlying prefix"
| "similarMethodsForReceiver gs (OrType l r) prefix = Some (Inr [])"
| "similarMethodsForReceiver gs OpaqueType prefix = Some (Inr [])"

subsection \<open>Candidates of a dispatch result\<close>

text \<open>
  A \<^verbatim>\<open>core::DispatchResult\<close> has a main component, an owned pointer to the next
  result (null at the end of the chain) and the kind of the link. The selectors of the
  component are \<open>dcReceiver\<close> and \<open>dcConstr\<close> for the source's \<^verbatim>\<open>receiver\<close> and
  \<^verbatim>\<open>constr\<close>.
\<close>

datatype Combinator = OR | AND

datatype DispatchComponent =
  DispatchComponent (dcReceiver: Type) (dcConstr: "TypeConstraint option")

datatype DispatchResult =
  DispatchResult (main: DispatchComponent) (secondary: "DispatchResult option")
    (secondaryKind: Combinator)

text \<open>
  The stamping loop of \<^verbatim>\<open>allSimilarMethods\<close>: for each candidate the two
  \<^verbatim>\<open>ENFORCE\<close>s and the two assignments, in the order of the source. The constraint
  that is assigned may be null.
\<close>

fun stampVector ::
  "Type \<Rightarrow> TypeConstraint option \<Rightarrow> SimilarMethod list \<Rightarrow> fault + SimilarMethod list" where
  "stampVector rt c [] = Inr []"
| "stampVector rt c (similarMethod # rest) =
     (if receiverType similarMethod \<noteq> None then Inl OverwriteReceiverType
      else if constr similarMethod \<noteq> None then Inl OverwriteConstr
      else (case stampVector rt c rest of
              Inl f \<Rightarrow> Inl f
            | Inr rest' \<Rightarrow>
                Inr (similarMethod\<lparr>receiverType := Some rt, constr := c\<rparr> # rest')))"

fun stampAll ::
  "Type \<Rightarrow> TypeConstraint option \<Rightarrow> SimilarMethodsByName \<Rightarrow> fault + SimilarMethodsByName" where
  "stampAll rt c [] = Inr []"
| "stampAll rt c ((methodName, similarMethods) # rest) =
     (case stampVector rt c similarMethods of
        Inl f \<Rightarrow> Inl f
      | Inr similarMethods' \<Rightarrow>
          (case stampAll rt c rest of
             Inl f \<Rightarrow> Inl f
           | Inr rest' \<Rightarrow> Inr ((methodName, similarMethods') # rest')))"

fun allSimilarMethods ::
  "GlobalState \<Rightarrow> DispatchResult \<Rightarrow> string \<Rightarrow> SimilarMethodsByName outcome" where
  "allSimilarMethods gs (DispatchResult mainComponent secondaryResult linkKind) prefix =
     (case similarMethodsForReceiver gs (dcReceiver mainComponent) prefix of
        None \<Rightarrow> None
      | Some (Inl f) \<Rightarrow> Some (Inl f)
      | Some (Inr result) \<Rightarrow>
          (case stampAll (dcReceiver mainComponent) (dcConstr mainComponent) result of
             Inl f \<Rightarrow> Some (Inl f)
           | Inr stamped \<Rightarrow>
               (case secondaryResult of
                  None \<Rightarrow> Some (Inr stamped)
                | Some next \<Rightarrow>
                    (case allSimilarMethods gs next prefix of
                       None \<Rightarrow> None
                     | Some (Inl f) \<Rightarrow> Some (Inl f)
                     | Some (Inr others) \<Rightarrow>
                         Some (Inr (mergeSimilarMethods stamped others))))))"

subsection \<open>Sorting and deduplication\<close>

text \<open>
  Modelled from the spec: \<^verbatim>\<open>fast_sort\<close> is defined outside this file; it sorts a
  vector in place by a comparator ("sort by"). The model is insertion sort, which keeps
  the order of elements that the comparator does not separate.
\<close>

fun insert_sorted :: "('a \<Rightarrow> 'a \<Rightarrow> bool) \<Rightarrow> 'a \<Rightarrow> 'a list \<Rightarrow> 'a list" where
  "insert_sorted before x [] = [x]"
| "insert_sorted before x (y # ys) =
     (if before y x then y # insert_sorted before x ys else x # y # ys)"

definition fast_sort :: "('a \<Rightarrow> 'a \<Rightarrow> bool) \<Rightarrow> 'a list \<Rightarrow> 'a list" where
  "fast_sort before xs = foldr (insert_sorted before) xs []"

text \<open>The comparator of the sort of each name's vector.\<close>

definition byDepthThenId :: "SimilarMethod \<Rightarrow> SimilarMethod \<Rightarrow> bool" where
  "byDepthThenId left right =
     (if depth left \<noteq> depth right then depth left < depth right
      else method left < method right)"

definition sortEachName :: "SimilarMethodsByName \<Rightarrow> SimilarMethodsByName" where
  "sortEachName similarMethodsByName =
     map (\<lambda>(methodName, similarMethods). (methodName, fast_sort byDepthThenId similarMethods))
       similarMethodsByName"

definition isMangleRename :: "GlobalState \<Rightarrow> NameRef \<Rightarrow> bool" where
  "isMangleRename gs methodName =
     (kind (nameData gs methodName) = UNIQUE \<and>
      uniqueNameKind (nameData gs methodName) = MangleRename)"

text \<open>
  The deduplication loop. \<^verbatim>\<open>similarMethods[0]\<close> on an empty vector is outside the
  vector's contract; the model stops with a fault there.
\<close>

fun dedupe ::
  "GlobalState \<Rightarrow> SimilarMethodsByName \<Rightarrow> SimilarMethod list \<Rightarrow> fault + SimilarMethod list" where
  "dedupe gs [] deduped = Inr deduped"
| "dedupe gs ((methodName, similarMethods) # rest) deduped =
     (if isMangleRename gs methodName then dedupe gs rest deduped
      else (case similarMethods of
              [] \<Rightarrow> Inl EmptyVectorAccess
            | first # _ \<Rightarrow> dedupe gs rest (deduped @ [first])))"

text \<open>
  \<^verbatim>\<open>absl::StartsWith(text, prefix)\<close>, and the short name of a method symbol. Strings
  are byte sequences, and \<open><\<close> on them is the lexicographic order on bytes of
  \<^verbatim>\<open>std::string_view\<close>.
\<close>

definition StartsWith :: "string \<Rightarrow> string \<Rightarrow> bool" where
  "StartsWith text prefix = (take (length prefix) text = prefix)"

definition methodShortName :: "GlobalState \<Rightarrow> SymbolRef \<Rightarrow> string" where
  "methodShortName gs m = shortName (nameData gs (name (symbolData gs m)))"

text \<open>The comparator of the final sort of the deduplicated candidates.\<close>

definition rankBefore :: "GlobalState \<Rightarrow> string \<Rightarrow> SimilarMethod \<Rightarrow> SimilarMethod \<Rightarrow> bool" where
  "rankBefore gs prefix left right =
     (if depth left \<noteq> depth right then depth left < depth right
      else if methodShortName gs (method left) \<noteq> methodShortName gs (method right)
      then (if StartsWith (methodShortName gs (method left)) prefix \<and>
               \<not> StartsWith (methodShortName gs (method right)) prefix then True
            else if \<not> StartsWith (methodShortName gs (method left)) prefix \<and>
               StartsWith (methodShortName gs (method right)) prefix then False
            else methodShortName gs (method left) < methodShortName gs (method right))
      else method left < method right)"

text \<open>
  The ranking of a method call: the candidates of the dispatch result, each name's
  vector sorted, deduplicated, and sorted by the final comparator.
\<close>

definition rankedMethods ::
  "GlobalState \<Rightarrow> DispatchResult \<Rightarrow> string \<Rightarrow> SimilarMethod list outcome" where
  "rankedMethods gs dispatchResult prefix =
     (case allSimilarMethods gs dispatchResult prefix of
        None \<Rightarrow> None
      | Some (Inl f) \<Rightarrow> Some (Inl f)
      | Some (Inr similarMethodsByName) \<Rightarrow>
          (case dedupe gs (sortEachName similarMethodsByName) [] of
             Inl f \<Rightarrow> Some (Inl f)
           | Inr deduped \<Rightarrow> Some (Inr (fast_sort (rankBefore gs prefix) deduped))))"

subsection \<open>Completion items\<close>

text \<open>
  \<^verbatim>\<open>fmt::format("{:06d}", sortIdx)\<close>: the decimal digits of the index, filled with
  zeros on the left up to a width of six. The index is a \<^verbatim>\<open>size_t\<close> that is only
  printed.
\<close>

fun decimal :: "nat \<Rightarrow> string" where
  "decimal n = (if n < 10 then [''0123456789'' ! n]
                else decimal (n div 10) @ [''0123456789'' ! (n mod 10)])"

declare decimal.simps [simp del]

definition format_06d :: "nat \<Rightarrow> string" where
  "format_06d n = replicate (6 - length (decimal n)) (CHR ''0'') @ decimal n"

datatype CompletionItemKind = Method | Constant | Class

text \<open>
  Of a \<^verbatim>\<open>CompletionItem\<close> the label, the sort text and the kind are modelled
  (\<open>itemKind\<close> is the source's \<^verbatim>\<open>kind\<close>). The detail, the insert text and the
  documentation come from helpers outside the ranking and are left out.
\<close>

record CompletionItem =
  label :: string
  sortText :: string
  itemKind :: "CompletionItemKind option"

definition getCompletionItem ::
  "GlobalState \<Rightarrow> SymbolRef \<Rightarrow> Type option \<Rightarrow> TypeConstraint option \<Rightarrow> nat \<Rightarrow>
   fault + CompletionItem" where
  "getCompletionItem gs what rt constraint sortIdx =
     (if \<not> exists what then Inl SymbolDoesNotExist
      else Inr \<lparr>label = methodShortName gs what,
                sortText = format_06d sortIdx,
                itemKind =
                  (if isMethod (symbolData gs what) then Some Method
                   else if isStaticField (symbolData gs what) then Some Constant
                   else if isClassOrModule (symbolData gs what) then Some Class
                   else None)\<rparr>)"

text \<open>The loop that turns the ranked candidates into items, numbered by their position.\<close>

fun pushMethodItems ::
  "GlobalState \<Rightarrow> SimilarMethod list \<Rightarrow> CompletionItem list \<Rightarrow> fault + CompletionItem list" where
  "pushMethodItems gs [] items = Inr items"
| "pushMethodItems gs (similarMethod # rest) items =
     (case getCompletionItem gs (method similarMethod) (receiverType similarMethod)
             (constr similarMethod) (length items) of
        Inl f \<Rightarrow> Inl f
      | Inr item \<Rightarrow> pushMethodItems gs rest (items @ [item]))"

subsection \<open>Constants and identifiers\<close>

fun scanConstants ::
  "GlobalState \<Rightarrow> Type \<Rightarrow> string \<Rightarrow> (NameRef \<times> SymbolRef) list \<Rightarrow> CompletionItem list \<Rightarrow>
   fault + CompletionItem list" where
  "scanConstants gs rt pattern [] items = Inr items"
| "scanConstants gs rt pattern ((memberName, symb) # rest) items =
     (if exists symb \<and>
         (isClassOrModule (symbolData gs symb) \<or> isStaticField (symbolData gs symb)) \<and>
         kind (nameData gs (name (symbolData gs symb))) = CONSTANT \<and>
         hasSimilarName gs (name (symbolData gs symb)) pattern
      then (case getCompletionItem gs symb (Some rt) None (length items) of
              Inl f \<Rightarrow> Inl f
            | Inr item \<Rightarrow> scanConstants gs rt pattern rest (items @ [item]))
      else scanConstants gs rt pattern rest items)"

text \<open>
  The \<^verbatim>\<open>do\<close> loop of \<^verbatim>\<open>findSimilarConstantOrIdent\<close>; \<open>current\<close> is the value
  of the variable \<^verbatim>\<open>owner\<close> when an iteration starts.
\<close>

partial_function (option) ownerLoop ::
  "GlobalState \<Rightarrow> Type \<Rightarrow> string \<Rightarrow> SymbolRef \<Rightarrow> CompletionItem list \<Rightarrow>
   (fault + CompletionItem list) option" where
  "ownerLoop gs rt pattern current items =
     (case scanConstants gs rt pattern
             (membersStableOrderSlow (symbolData gs (owner (symbolData gs current)))) items of
        Inl f \<Rightarrow> Some (Inl f)
      | Inr items' \<Rightarrow>
          if owner (symbolData gs current) \<noteq> root
          then ownerLoop gs rt pattern (owner (symbolData gs current)) items'
          else Some (Inr items'))"

fun findSimilarConstantOrIdent ::
  "GlobalState \<Rightarrow> Type \<Rightarrow> CompletionItem list \<Rightarrow> CompletionItem list outcome" where
  "findSimilarConstantOrIdent gs (ClassType symbol) items =
     ownerLoop gs (ClassType symbol) (methodShortName gs symbol) symbol items"
| "findSimilarConstantOrIdent gs rt items = Some (Inr items)"

subsection \<open>The request handler\<close>

text \<open>
  The configuration, the query and the response, as far as the handler reads and writes
  them. \<^verbatim>\<open>setupLSPQueryByLoc\<close> belongs to the protocol loop; it is a parameter of the
  handler, from the global state, the document and the position to a new global state
  and either an error or the query responses. The counter
  \<^verbatim>\<open>lsp.messages.processed\<close> is passed in and returned.
\<close>

datatype QueryResponse =
    SendResponse NameRef DispatchResult
  | IdentResponse Type
  | ConstantResponse Type
  | OtherResponse

datatype LSPErrorCodes = InvalidRequest | OtherErrorCode int

datatype ResponseError = ResponseError LSPErrorCodes string

record LSPQueryResult =
  queryGs :: GlobalState
  queryError :: "ResponseError option"
  responses :: "QueryResponse list"

record ResponseMessage =
  responseError :: "ResponseError option"
  responseResult :: "CompletionItem list option"

record LSPResult =
  resultGs :: GlobalState
  response :: ResponseMessage
  processed :: nat

definition completionItems ::
  "GlobalState \<Rightarrow> QueryResponse list \<Rightarrow> CompletionItem list outcome" where
  "completionItems gs queryResponses =
     (case queryResponses of
        [] \<Rightarrow> Some (Inr [])
      | SendResponse callerSideName dispatchResult # _ \<Rightarrow>
          (case rankedMethods gs dispatchResult
                  (shortName (nameData gs callerSideName)) of
             None \<Rightarrow> None
           | Some (Inl f) \<Rightarrow> Some (Inl f)
           | Some (Inr ranked) \<Rightarrow> Some (pushMethodItems gs ranked []))
      | IdentResponse retType # _ \<Rightarrow> findSimilarConstantOrIdent gs retType []
      | ConstantResponse retType # _ \<Rightarrow> findSimilarConstantOrIdent gs retType []
      | OtherResponse # _ \<Rightarrow> Some (Inr []))"

definition handleTextDocumentCompletion ::
  "bool \<Rightarrow> (GlobalState \<Rightarrow> string \<Rightarrow> nat \<times> nat \<Rightarrow> LSPQueryResult) \<Rightarrow> nat \<Rightarrow>
   GlobalState \<Rightarrow> string \<Rightarrow> nat \<times> nat \<Rightarrow> LSPResult outcome" where
  "handleTextDocumentCompletion lspAutocompleteEnabled setupLSPQueryByLoc counter gs uri
     position =
     (if \<not> lspAutocompleteEnabled
      then Some (Inr \<lparr>resultGs = gs,
                      response =
                        \<lparr>responseError =
                           Some (ResponseError InvalidRequest
                             ''The `Autocomplete` LSP feature is experimental and disabled by default.''),
                         responseResult = None\<rparr>,
                      processed = counter\<rparr>)
      else (case queryError (setupLSPQueryByLoc gs uri position) of
              Some e \<Rightarrow>
                Some (Inr \<lparr>resultGs = queryGs (setupLSPQueryByLoc gs uri position),
                          response = \<lparr>responseError = Some e, responseResult = None\<rparr>,
                          processed = counter + 1\<rparr>)
            | None \<Rightarrow>
                (case completionItems (queryGs (setupLSPQueryByLoc gs uri position))
                        (responses (setupLSPQueryByLoc gs uri position)) of
                   None \<Rightarrow> None
                 | Some (Inl f) \<Rightarrow> Some (Inl f)
                 | Some (Inr items) \<Rightarrow>
                     Some (Inr \<lparr>resultGs = queryGs (setupLSPQueryByLoc gs uri position),
                               response =
                                 \<lparr>responseError = None, responseResult = Some items\<rparr>,
                               processed = counter + 1\<rparr>))))"

subsection \<open>Notions used in the statements\<close>

text \<open>
  The candidates of a map as a set of pairs of a name and a candidate; the shape of a map
  that the code builds (every name once, no empty vector); what one iteration of the scan
  adds for one ancestor; the stamp of a dispatch component; the components of a dispatch
  chain; the sort keys that the two comparators order by; and the reading of a sort text
  as a number. \<open>keyedByName\<close> is the convention of the symbol table that a method is
  entered into \<^verbatim>\<open>members()\<close> under its own name. \<open>superChain\<close> holds of a symbol
  whose chain of superclasses ends. \<open>stampedOnceBy\<close> says of a candidate under a name
  that the receiver of the given component produced it with null receiver type and
  constraint, and that it differs from that fresh candidate in these two fields only,
  which hold the values of the component.
\<close>

definition candidates :: "SimilarMethodsByName \<Rightarrow> (NameRef \<times> SimilarMethod) set" where
  "candidates m = {(k, c). \<exists>xs. (k, xs) \<in> set m \<and> c \<in> set xs}"

definition wfMap :: "SimilarMethodsByName \<Rightarrow> bool" where
  "wfMap m = (distinct (map fst m) \<and> (\<forall>(k, xs) \<in> set m. xs \<noteq> []))"

definition foundAt ::
  "GlobalState \<Rightarrow> string \<Rightarrow> SymbolRef \<Rightarrow> SymbolRef \<Rightarrow> int \<Rightarrow> NameRef \<Rightarrow> SimilarMethod \<Rightarrow> bool" where
  "foundAt gs p recv ancestor d k c =
     (\<exists>s. (k, s) \<in> set (members (symbolData gs ancestor)) \<and>
          isMethod (symbolData gs s) \<and> hasSimilarName gs k p \<and>
          c = \<lparr>depth = d, receiver = recv, method = s, receiverType = None, constr = None\<rparr>)"

inductive superChain :: "GlobalState \<Rightarrow> SymbolRef \<Rightarrow> bool" for gs where
  top: "\<not> exists (superClass (symbolData gs s)) \<Longrightarrow> superChain gs s"
| step: "exists (superClass (symbolData gs s)) \<Longrightarrow> superChain gs (superClass (symbolData gs s)) \<Longrightarrow> superChain gs s"

definition stamp :: "Type \<Rightarrow> TypeConstraint option \<Rightarrow> SimilarMethod \<Rightarrow> SimilarMethod" where
  "stamp rt c similarMethod = similarMethod\<lparr>receiverType := Some rt, constr := c\<rparr>"

definition unstamped :: "SimilarMethod \<Rightarrow> bool" where
  "unstamped c = (receiverType c = None \<and> constr c = None)"

definition memberMethod :: "GlobalState \<Rightarrow> NameRef \<Rightarrow> SimilarMethod \<Rightarrow> bool" where
  "memberMethod gs k c =
     (isMethod (symbolData gs (method c)) \<and>
      (\<exists>a. (k, method c) \<in> set (members (symbolData gs a))))"

fun components :: "DispatchResult \<Rightarrow> DispatchComponent list" where
  "components (DispatchResult mainComponent secondaryResult linkKind) =
     mainComponent # (case secondaryResult of None \<Rightarrow> [] | Some next \<Rightarrow> components next)"

definition stampedBy :: "DispatchResult \<Rightarrow> SimilarMethod \<Rightarrow> bool" where
  "stampedBy dispatchResult c =
     (\<exists>component \<in> set (components dispatchResult).
        receiverType c = Some (dcReceiver component) \<and> constr c = dcConstr component)"

definition depthIdKey :: "SimilarMethod \<Rightarrow> int \<times> nat" where
  "depthIdKey c = (depth c, method c)"

definition rankKey :: "GlobalState \<Rightarrow> string \<Rightarrow> SimilarMethod \<Rightarrow> int \<times> bool \<times> string \<times> nat" where
  "rankKey gs prefix c =
     (depth c, \<not> StartsWith (methodShortName gs (method c)) prefix,
      methodShortName gs (method c), method c)"

definition keyedByName :: "GlobalState \<Rightarrow> bool" where
  "keyedByName gs =
     (\<forall>a k s. (k, s) \<in> set (members (symbolData gs a)) \<longrightarrow> isMethod (symbolData gs s) \<longrightarrow>
        name (symbolData gs s) = k)"

definition notMangled :: "GlobalState \<Rightarrow> NameRef \<times> SimilarMethod list \<Rightarrow> bool" where
  "notMangled gs entry = (\<not> isMangleRename gs (fst entry))"

definition digitsValue :: "string \<Rightarrow> nat" where
  "digitsValue s = foldl (\<lambda>acc ch. 10 * acc + (of_char ch - 48)) 0 s"

definition stampedOnceBy ::
  "GlobalState \<Rightarrow> string \<Rightarrow> DispatchComponent \<Rightarrow> NameRef \<Rightarrow> SimilarMethod \<Rightarrow> bool" where
  "stampedOnceBy gs prefix component k c =
     (\<exists>fresh c0.
        similarMethodsForReceiver gs (dcReceiver component) prefix = Some (Inr fresh) \<and>
        (k, c0) \<in> candidates fresh \<and> receiverType c0 = None \<and> constr c0 = None \<and>
        c = c0\<lparr>receiverType := Some (dcReceiver component), constr := dcConstr component\<rparr>)"

subsection \<open>A small symbol table\<close>

text \<open>
  Class \<open>A\<close> (symbol 2) defines \<open>foo_bar\<close> (symbol 4). Class \<open>B\<close> (symbol 3) has the
  superclass \<open>A\<close> and defines \<open>foo_baz\<close> (symbol 5) and a method (symbol 6) whose name is
  the rename-mangled name 12. The similarity oracle of the example accepts the names whose
  short name starts with the prefix.
\<close>

definition exNames :: "NameRef \<Rightarrow> Name" where
  "exNames n =
     (if n = 10 then \<lparr>kind = UTF8, uniqueNameKind = OtherUniqueName, shortName = ''foo_bar''\<rparr>
      else if n = 11 then \<lparr>kind = UTF8, uniqueNameKind = OtherUniqueName, shortName = ''foo_baz''\<rparr>
      else if n = 12 then \<lparr>kind = UNIQUE, uniqueNameKind = MangleRename, shortName = ''foo_baz''\<rparr>
      else if n = 20 then \<lparr>kind = CONSTANT, uniqueNameKind = OtherUniqueName, shortName = ''A''\<rparr>
      else if n = 21 then \<lparr>kind = CONSTANT, uniqueNameKind = OtherUniqueName, shortName = ''B''\<rparr>
      else \<lparr>kind = UTF8, uniqueNameKind = OtherUniqueName, shortName = ''''\<rparr>)"

definition exClass :: "NameRef \<Rightarrow> SymbolRef \<Rightarrow> (NameRef \<times> SymbolRef) list \<Rightarrow> Symbol" where
  "exClass n super ms =
     \<lparr>name = n, owner = root, isMethod = False, isStaticField = False,
      isClassOrModule = True, isClassOrModuleLinearizationComputed = True, mixins = [],
      superClass = super, members = ms, membersStableOrderSlow = ms\<rparr>"

definition exMethod :: "NameRef \<Rightarrow> SymbolRef \<Rightarrow> Symbol" where
  "exMethod n cls =
     \<lparr>name = n, owner = cls, isMethod = True, isStaticField = False,
      isClassOrModule = False, isClassOrModuleLinearizationComputed = False, mixins = [],
      superClass = noSymbol, members = [], membersStableOrderSlow = []\<rparr>"

definition exSymbols :: "SymbolRef \<Rightarrow> Symbol" where
  "exSymbols s =
     (if s = 2 then exClass 20 noSymbol [(10, 4)]
      else if s = 3 then exClass 21 2 [(11, 5), (12, 6)]
      else if s = 4 then exMethod 10 2
      else if s = 5 then exMethod 11 3
      else if s = 6 then exMethod 12 3
      else exClass 0 noSymbol [])"

definition exGs :: GlobalState where
  "exGs = \<lparr>symbolData = exSymbols, nameData = exNames,
           hasSimilarName = (\<lambda>n p. StartsWith (shortName (exNames n)) p)\<rparr>"

definition exCandidate ::
  "int \<Rightarrow> SymbolRef \<Rightarrow> SymbolRef \<Rightarrow> Type option \<Rightarrow> TypeConstraint option \<Rightarrow> SimilarMethod" where
  "exCandidate d recv m rt cn =
     \<lparr>depth = d, receiver = recv, method = m, receiverType = rt, constr = cn\<rparr>"

definition exDispatchA :: DispatchResult where
  "exDispatchA = DispatchResult (DispatchComponent (ClassType 2) (Some 7)) None AND"

definition exDispatchB :: DispatchResult where
  "exDispatchB = DispatchResult (DispatchComponent (ClassType 3) None) None OR"

definition exDispatchAB :: DispatchResult where
  "exDispatchAB = DispatchResult (DispatchComponent (ClassType 2) (Some 7)) (Some exDispatchB) AND"

definition exSetupOr :: "GlobalState \<Rightarrow> string \<Rightarrow> nat \<times> nat \<Rightarrow> LSPQueryResult" where
  "exSetupOr gs uri position =
     \<lparr>queryGs = gs, queryError = None,
      responses =
        [SendResponse 10
           (DispatchResult (DispatchComponent (OrType (ClassType 2) (ClassType 3)) None)
              None OR)]\<rparr>"

section \<open>Properties of the embedding\<close>

subsection \<open>Auxiliary lemmas\<close>

lemma candidates_Nil [simp]: "candidates [] = {}"
  by (simp add: candidates_def)

lemma candidates_Cons: "candidates ((k, xs) # m) = (Pair k ` set xs) \<union> candidates m"
  by (auto simp: candidates_def)

lemma candidates_emplace_back_at:
  "candidates (emplace_back_at m k x) = insert (k, x) (candidates m)"
  by (induction m k x rule: emplace_back_at.induct) (auto simp: candidates_Cons)

lemma keys_emplace_back_at:
  "fst ` set (emplace_back_at m k x) = insert k (fst ` set m)"
  by (induction m k x rule: emplace_back_at.induct) auto

lemma wfMap_emplace_back_at: "wfMap m \<Longrightarrow> wfMap (emplace_back_at m k x)"
proof (induction m k x rule: emplace_back_at.induct)
  case (1 k x)
  then show ?case by (simp add: wfMap_def)
next
  case (2 k' xs m k x)
  then show ?case
    using keys_emplace_back_at [of m k x] by (auto simp: wfMap_def)
qed

lemma map_of_emplace_back_at:
  "map_of (emplace_back_at m k x) k' =
     (if k' = k then Some ((case map_of m k of None \<Rightarrow> [] | Some xs \<Rightarrow> xs) @ [x])
      else map_of m k')"
  by (induction m k x rule: emplace_back_at.induct) auto

lemma candidates_scanMembers:
  "candidates (scanMembers gs p recv d mems res) =
     candidates res \<union>
     {(k, \<lparr>depth = d, receiver = recv, method = s, receiverType = None, constr = None\<rparr>) | k s.
        (k, s) \<in> set mems \<and> isMethod (symbolData gs s) \<and> hasSimilarName gs k p}"
  by (induction gs p recv d mems res rule: scanMembers.induct)
     (auto simp: candidates_emplace_back_at)

lemma wfMap_scanMembers: "wfMap res \<Longrightarrow> wfMap (scanMembers gs p recv d mems res)"
  by (induction gs p recv d mems res rule: scanMembers.induct)
     (auto simp: wfMap_emplace_back_at)

lemma in_candidates_scanMembers:
  "(k, c) \<in> candidates (scanMembers gs p recv d (members (symbolData gs a)) res) \<longleftrightarrow>
     (k, c) \<in> candidates res \<or> foundAt gs p recv a d k c"
  by (auto simp: candidates_scanMembers foundAt_def)

lemma in_candidates_scanAncestors:
  "(k, c) \<in> candidates (scanAncestors gs p recv d ancs res) \<longleftrightarrow>
     (k, c) \<in> candidates res \<or>
     (\<exists>i < length ancs. foundAt gs p recv (ancs ! i) (d + 1 + int i) k c)"
proof (induction gs p recv d ancs res rule: scanAncestors.induct)
  case (1 gs prefix recv d result)
  then show ?case by simp
next
  case (2 gs prefix recv d ancestor rest result)
  have shift: "(\<exists>i < length (ancestor # rest).
                  foundAt gs prefix recv ((ancestor # rest) ! i) (d + 1 + int i) k c) \<longleftrightarrow>
               foundAt gs prefix recv ancestor (d + 1) k c \<or>
               (\<exists>i < length rest. foundAt gs prefix recv (rest ! i) (d + 1 + 1 + int i) k c)"
    (is "?L \<longleftrightarrow> ?R")
  proof
    assume ?L
    then obtain i where i: "i < length (ancestor # rest)"
      and f: "foundAt gs prefix recv ((ancestor # rest) ! i) (d + 1 + int i) k c" by blast
    show ?R
    proof (cases i)
      case 0
      with f show ?thesis by simp
    next
      case (Suc j)
      have e: "d + 1 + int (Suc j) = d + 1 + 1 + int j" by simp
      from f have "foundAt gs prefix recv (rest ! j) (d + 1 + 1 + int j) k c"
        unfolding Suc nth_Cons_Suc e .
      moreover from i Suc have "j < length rest" by simp
      ultimately show ?thesis by blast
    qed
  next
    assume ?R
    then show ?L
    proof
      assume "foundAt gs prefix recv ancestor (d + 1) k c"
      then have "foundAt gs prefix recv ((ancestor # rest) ! 0) (d + 1 + int 0) k c" by simp
      then show ?L by (metis length_greater_0_conv list.distinct(1))
    next
      assume "\<exists>i < length rest. foundAt gs prefix recv (rest ! i) (d + 1 + 1 + int i) k c"
      then obtain j where j: "j < length rest"
        and f: "foundAt gs prefix recv (rest ! j) (d + 1 + 1 + int j) k c" by blast
      have e: "d + 1 + int (Suc j) = d + 1 + 1 + int j" by simp
      from f have "foundAt gs prefix recv ((ancestor # rest) ! Suc j) (d + 1 + int (Suc j)) k c"
        unfolding nth_Cons_Suc e .
      moreover from j have "Suc j < length (ancestor # rest)" by simp
      ultimately show ?L by blast
    qed
  qed
  show ?case
    unfolding scanAncestors.simps 2 in_candidates_scanMembers shift by blast
qed

lemma wfMap_scanAncestors: "wfMap res \<Longrightarrow> wfMap (scanAncestors gs p recv d ancs res)"
  by (induction gs p recv d ancs res rule: scanAncestors.induct)
     (auto simp: wfMap_scanMembers)

lemma ancestorsImpl_extends_aux:
  assumes "ancestorsImpl gs0 s0 acc0 = Some y0"
  shows "\<forall>r. y0 = Inr r \<longrightarrow> (\<exists>rest. r = acc0 @ s0 # rest)"
proof (rule ancestorsImpl.raw_induct
    [where P = "\<lambda>gs s acc y. \<forall>r. y = Inr r \<longrightarrow> (\<exists>rest. r = acc @ s # rest)", OF _ assms],
    goal_cases)
  case (1 f gs symb acc y)
  show ?case
  proof (cases "isClassOrModuleLinearizationComputed (symbolData gs symb)")
    case False
    with 1(2) show ?thesis by auto
  next
    case lin: True
    show ?thesis
    proof (cases "exists (superClass (symbolData gs symb))")
      case True
      with lin 1(2) have "f gs (superClass (symbolData gs symb))
             (acc @ symb # mixins (symbolData gs symb)) = Some y" by simp
      from 1(1) [OF this] show ?thesis by auto
    next
      case False
      with lin 1(2) show ?thesis by auto
    qed
  qed
qed

lemma ancestorsImpl_extends:
  "ancestorsImpl gs s acc = Some (Inr r) \<Longrightarrow> \<exists>rest. r = acc @ s # rest"
  using ancestorsImpl_extends_aux by blast

lemma ancestorsImpl_returns:
  "superChain gs s \<Longrightarrow> \<exists>y. ancestorsImpl gs s acc = Some y"
proof (induction arbitrary: acc rule: superChain.induct)
  case (top s)
  then show ?case by (subst ancestorsImpl.simps) simp
next
  case (step s)
  then show ?case by (subst ancestorsImpl.simps) simp
qed

lemma similarMethodsForClass_returns:
  "superChain gs s \<Longrightarrow> \<exists>y. similarMethodsForClass gs s p = Some y"
  using ancestorsImpl_returns [of gs s "[]"]
  by (auto simp: similarMethodsForClass_def ancestors_def split: sum.splits)

lemma wfMap_Nil [simp]: "wfMap []"
  by (simp add: wfMap_def)

lemma candidates_emplace_back_all:
  "candidates (emplace_back_all m k xs) = candidates m \<union> Pair k ` set xs"
  by (induction m k xs rule: emplace_back_all.induct) (auto simp: candidates_emplace_back_at)

lemma wfMap_emplace_back_all: "wfMap m \<Longrightarrow> wfMap (emplace_back_all m k xs)"
  by (induction m k xs rule: emplace_back_all.induct) (auto simp: wfMap_emplace_back_at)

lemma map_of_emplace_back_all:
  "map_of (emplace_back_all m k xs) k' =
     (if k' = k \<and> xs \<noteq> []
      then Some ((case map_of m k of None \<Rightarrow> [] | Some ys \<Rightarrow> ys) @ xs)
      else map_of m k')"
  by (induction m k xs rule: emplace_back_all.induct)
     (auto simp: map_of_emplace_back_at split: option.splits)

lemma map_of_candidates: "map_of m k = Some xs \<Longrightarrow> Pair k ` set xs \<subseteq> candidates m"
  by (auto simp: candidates_def dest: map_of_SomeD)

lemma candidates_mergeLoop:
  "candidates (mergeLoop l r res) \<subseteq> candidates res \<union> candidates l \<union> candidates r"
proof (induction l r res rule: mergeLoop.induct)
  case (1 right result)
  then show ?case by simp
next
  case (2 methodName leftSimilarMethods rest right result)
  show ?case
  proof (cases "map_of right methodName")
    case None
    with 2(1) show ?thesis by (auto simp: candidates_Cons)
  next
    case (Some rightSimilarMethods)
    from 2(2) [OF Some] map_of_candidates [OF Some] show ?thesis
      unfolding mergeLoop.simps Some option.case candidates_Cons candidates_emplace_back_all
      by blast
  qed
qed

lemma wfMap_mergeLoop: "wfMap res \<Longrightarrow> wfMap (mergeLoop l r res)"
  by (induction l r res rule: mergeLoop.induct)
     (auto simp: wfMap_emplace_back_all split: option.splits)

lemma map_of_mergeLoop:
  "distinct (map fst l) \<Longrightarrow> \<forall>(k, xs) \<in> set l. xs \<noteq> [] \<Longrightarrow>
   \<forall>k \<in> fst ` set l. map_of res k = None \<Longrightarrow>
   map_of (mergeLoop l r res) k =
     (case map_of l k of
        None \<Rightarrow> map_of res k
      | Some a \<Rightarrow> (case map_of r k of None \<Rightarrow> None | Some b \<Rightarrow> Some (a @ b)))"
proof (induction l r res rule: mergeLoop.induct)
  case (1 right result)
  then show ?case by simp
next
  case (2 methodName leftSimilarMethods rest right result)
  from 2(3) have dist: "distinct (map fst rest)" and notin: "methodName \<notin> fst ` set rest"
    by simp_all
  from 2(4) have ne: "leftSimilarMethods \<noteq> []" and nes: "\<forall>(k, xs) \<in> set rest. xs \<noteq> []"
    by simp_all
  from notin have restNone: "map_of rest methodName = None"
    by (simp add: map_of_eq_None_iff)
  from 2(5) have here: "map_of result methodName = None" by simp
  show ?case
  proof (cases "map_of right methodName")
    case None
    from 2(5) have "\<forall>k \<in> fst ` set rest. map_of result k = None" by simp
    from 2(1) [OF None dist nes this] show ?thesis
      by (simp add: None restNone here)
  next
    case (Some b)
    let ?res = "emplace_back_all (emplace_back_all result methodName leftSimilarMethods) methodName b"
    have other: "k' \<noteq> methodName \<Longrightarrow> map_of ?res k' = map_of result k'" for k'
      by (simp add: map_of_emplace_back_all)
    have this_one: "map_of ?res methodName = Some (leftSimilarMethods @ b)"
      using ne here by (simp add: map_of_emplace_back_all)
    from 2(5) notin other have "\<forall>k \<in> fst ` set rest. map_of ?res k = None"
      by fastforce
    from 2(2) [OF Some dist nes this]
    have IH: "map_of (mergeLoop rest right ?res) k =
        (case map_of rest k of
           None \<Rightarrow> map_of ?res k
         | Some a \<Rightarrow> (case map_of right k of None \<Rightarrow> None | Some b \<Rightarrow> Some (a @ b)))" .
    show ?thesis
    proof (cases "k = methodName")
      case True
      with IH show ?thesis by (simp add: Some restNone this_one)
    next
      case False
      with IH other [OF False] show ?thesis by (simp add: Some split: option.splits)
    qed
  qed
qed

lemma map_of_mergeSimilarMethods:
  "wfMap l \<Longrightarrow>
   map_of (mergeSimilarMethods l r) k =
     (case map_of l k of
        None \<Rightarrow> None
      | Some a \<Rightarrow> (case map_of r k of None \<Rightarrow> None | Some b \<Rightarrow> Some (a @ b)))"
  unfolding mergeSimilarMethods_def wfMap_def
  by (subst map_of_mergeLoop) (auto split: option.splits)

lemma wfMap_mergeSimilarMethods: "wfMap (mergeSimilarMethods l r)"
  by (simp add: mergeSimilarMethods_def wfMap_mergeLoop)

lemma candidates_mergeSimilarMethods:
  "candidates (mergeSimilarMethods l r) \<subseteq> candidates l \<union> candidates r"
  using candidates_mergeLoop [of l r "[]"] by (simp add: mergeSimilarMethods_def)

lemma stampVector_unstamped:
  "\<forall>c \<in> set xs. unstamped c \<Longrightarrow> stampVector rt cn xs = Inr (map (stamp rt cn) xs)"
  by (induction xs) (auto simp: unstamped_def stamp_def)

lemma stampAll_unstamped:
  "\<forall>(k, c) \<in> candidates m. unstamped c \<Longrightarrow>
   stampAll rt cn m = Inr (map (\<lambda>(k, xs). (k, map (stamp rt cn) xs)) m)"
proof (induction m)
  case Nil
  then show ?case by simp
next
  case (Cons e m)
  obtain k xs where e: "e = (k, xs)" by (cases e)
  from Cons.prems have "\<forall>c \<in> set xs. unstamped c" and "\<forall>(k, c) \<in> candidates m. unstamped c"
    by (auto simp: e candidates_Cons)
  with Cons.IH show ?case
    by (simp add: e stampVector_unstamped)
qed

lemma keys_map_values: "map fst (map (\<lambda>(k, xs). (k, g xs)) m) = map fst m"
  by (induction m) auto

lemma wfMap_map_values:
  "wfMap m \<Longrightarrow> wfMap (map (\<lambda>(k, xs). (k, map f xs)) m)"
  unfolding wfMap_def keys_map_values by auto

lemma candidates_map_values:
  "candidates (map (\<lambda>(k, xs). (k, map f xs)) m) = (\<lambda>(k, c). (k, f c)) ` candidates m"
proof (induction m)
  case Nil
  then show ?case by simp
next
  case (Cons e m)
  obtain k xs where e: "e = (k, xs)" by (cases e)
  have "Pair k ` f ` set xs = (\<lambda>(k, c). (k, f c)) ` Pair k ` set xs"
    by (simp add: image_image)
  with Cons.IH show ?case
    by (simp add: e candidates_Cons image_Un)
qed

lemma map_of_map_values:
  "map_of (map (\<lambda>(k, xs). (k, map f xs)) m) k = map_option (map f) (map_of m k)"
  by (induction m) auto

lemma ancestorsImpl_fault_aux:
  assumes "ancestorsImpl gs0 s0 acc0 = Some y0"
  shows "\<forall>f. y0 = Inl f \<longrightarrow> f = LinearizationNotComputed"
proof (rule ancestorsImpl.raw_induct
    [where P = "\<lambda>gs s acc y. \<forall>f. y = Inl f \<longrightarrow> f = LinearizationNotComputed", OF _ assms],
    goal_cases)
  case (1 g gs symb acc y)
  show ?case
  proof (cases "isClassOrModuleLinearizationComputed (symbolData gs symb)")
    case False
    with 1(2) show ?thesis by auto
  next
    case lin: True
    show ?thesis
    proof (cases "exists (superClass (symbolData gs symb))")
      case True
      with lin 1(2) have "g gs (superClass (symbolData gs symb))
             (acc @ symb # mixins (symbolData gs symb)) = Some y" by simp
      from 1(1) [OF this] show ?thesis by auto
    next
      case False
      with lin 1(2) show ?thesis by auto
    qed
  qed
qed

lemma similarMethodsForClass_fault:
  "similarMethodsForClass gs s p = Some (Inl f) \<Longrightarrow> f = LinearizationNotComputed"
  using ancestorsImpl_fault_aux [of gs s "[]"]
  by (auto simp: similarMethodsForClass_def ancestors_def split: option.splits sum.splits)

lemma similarMethodsForClass_inv:
  assumes "similarMethodsForClass gs s p = Some (Inr m)"
  shows "wfMap m" and "\<forall>(k, c) \<in> candidates m. unstamped c \<and> memberMethod gs k c"
proof -
  from assms obtain ancs where m: "m = scanAncestors gs p s (- 1) ancs []"
    by (auto simp: similarMethodsForClass_def split: option.splits sum.splits)
  show "wfMap m" by (simp add: m wfMap_scanAncestors)
  show "\<forall>(k, c) \<in> candidates m. unstamped c \<and> memberMethod gs k c"
    by (fastforce simp: m in_candidates_scanAncestors foundAt_def unstamped_def
          memberMethod_def)
qed

lemma similarMethodsForReceiver_fault:
  "similarMethodsForReceiver gs t p = Some (Inl f) \<Longrightarrow> f = LinearizationNotComputed"
  by (induction gs t p rule: similarMethodsForReceiver.induct)
     (auto simp: similarMethodsForClass_fault split: option.splits sum.splits)

lemma similarMethodsForReceiver_inv:
  "similarMethodsForReceiver gs t p = Some (Inr m) \<Longrightarrow>
   wfMap m \<and> (\<forall>(k, c) \<in> candidates m. unstamped c \<and> memberMethod gs k c)"
proof (induction gs t p arbitrary: m rule: similarMethodsForReceiver.induct)
  case (3 gs l r prefix)
  from 3(3) obtain lm rm where lm: "similarMethodsForReceiver gs l prefix = Some (Inr lm)"
    and rm: "similarMethodsForReceiver gs r prefix = Some (Inr rm)"
    and m: "m = mergeSimilarMethods lm rm"
    by (auto split: option.splits sum.splits)
  from 3(1) [OF lm] have L: "\<forall>(k, c) \<in> candidates lm. unstamped c \<and> memberMethod gs k c"
    by simp
  from 3(2) [OF lm refl rm] have R: "\<forall>(k, c) \<in> candidates rm. unstamped c \<and> memberMethod gs k c"
    by simp
  from L R candidates_mergeSimilarMethods [of lm rm]
  have "\<forall>(k, c) \<in> candidates m. unstamped c \<and> memberMethod gs k c"
    unfolding m by blast
  then show ?case by (simp add: m wfMap_mergeSimilarMethods)
qed (auto simp: similarMethodsForClass_inv)

lemma stampMain:
  assumes "similarMethodsForReceiver gs (dcReceiver mc) p = Some (Inr m)"
  shows "stampAll (dcReceiver mc) (dcConstr mc) m =
           Inr (map (\<lambda>(k, xs). (k, map (stamp (dcReceiver mc) (dcConstr mc)) xs)) m)"
  using similarMethodsForReceiver_inv [OF assms] by (intro stampAll_unstamped) auto

lemma allSimilarMethods_single:
  "allSimilarMethods gs (DispatchResult mc None lk) p =
     (case similarMethodsForReceiver gs (dcReceiver mc) p of
        None \<Rightarrow> None
      | Some (Inl f) \<Rightarrow> Some (Inl f)
      | Some (Inr m) \<Rightarrow>
          Some (Inr (map (\<lambda>(k, xs). (k, map (stamp (dcReceiver mc) (dcConstr mc)) xs)) m)))"
  by (auto simp: stampMain split: option.splits sum.splits)

lemma allSimilarMethods_chain:
  "allSimilarMethods gs (DispatchResult mc (Some next) lk) p =
     (case allSimilarMethods gs (DispatchResult mc None lk') p of
        None \<Rightarrow> None
      | Some (Inl f) \<Rightarrow> Some (Inl f)
      | Some (Inr stamped) \<Rightarrow>
          (case allSimilarMethods gs next p of
             None \<Rightarrow> None
           | Some (Inl f) \<Rightarrow> Some (Inl f)
           | Some (Inr others) \<Rightarrow> Some (Inr (mergeSimilarMethods stamped others))))"
  by (auto simp: stampMain split: option.splits sum.splits)

lemma allSimilarMethods_fault:
  "allSimilarMethods gs dr p = Some (Inl f) \<Longrightarrow> f = LinearizationNotComputed"
proof (induction gs dr p rule: allSimilarMethods.induct)
  case (1 gs mc sec lk prefix)
  show ?case
  proof (cases sec)
    case None
    from 1(2) [unfolded None allSimilarMethods_single] show ?thesis
      by (auto simp: similarMethodsForReceiver_fault split: option.splits sum.splits)
  next
    case (Some nxt)
    from 1(2) consider
        (main) "similarMethodsForReceiver gs (dcReceiver mc) prefix = Some (Inl f)"
      | (rest) m where "similarMethodsForReceiver gs (dcReceiver mc) prefix = Some (Inr m)"
          "allSimilarMethods gs nxt prefix = Some (Inl f)"
      unfolding Some allSimilarMethods_chain [where lk' = lk] allSimilarMethods_single
      by (auto split: option.splits sum.splits)
    then show ?thesis
    proof cases
      case main
      then show ?thesis by (rule similarMethodsForReceiver_fault)
    next
      case (rest m)
      from 1(1) [OF rest(1) refl stampMain [OF rest(1)] Some rest(2)] show ?thesis .
    qed
  qed
qed

lemma allSimilarMethods_inv:
  "allSimilarMethods gs dr p = Some (Inr m) \<Longrightarrow>
   wfMap m \<and> (\<forall>(k, c) \<in> candidates m. memberMethod gs k c \<and> stampedBy dr c)"
proof (induction gs dr p arbitrary: m rule: allSimilarMethods.induct)
  case (1 gs mc sec lk prefix)
  let ?st = "stamp (dcReceiver mc) (dcConstr mc)"
  have stamped: "memberMethod gs k (?st c) \<and> stampedBy (DispatchResult mc sec lk) (?st c)"
    if "memberMethod gs k c" for k c
    using that by (simp add: memberMethod_def stampedBy_def stamp_def)
  show ?case
  proof (cases sec)
    case None
    from 1(2) obtain m0 where m0: "similarMethodsForReceiver gs (dcReceiver mc) prefix = Some (Inr m0)"
      and m: "m = map (\<lambda>(k, xs). (k, map ?st xs)) m0"
      unfolding None allSimilarMethods_single by (auto split: option.splits sum.splits)
    from similarMethodsForReceiver_inv [OF m0] stamped show ?thesis
      unfolding m candidates_map_values by (auto simp: wfMap_map_values None)
  next
    case (Some nxt)
    from 1(2) obtain m0 others where
      m0: "similarMethodsForReceiver gs (dcReceiver mc) prefix = Some (Inr m0)"
      and others: "allSimilarMethods gs nxt prefix = Some (Inr others)"
      and m: "m = mergeSimilarMethods (map (\<lambda>(k, xs). (k, map ?st xs)) m0) others"
      unfolding Some allSimilarMethods_chain [where lk' = lk] allSimilarMethods_single
      by (auto split: option.splits sum.splits)
    from 1(1) [OF m0 refl stampMain [OF m0] Some others]
    have O: "\<forall>(k, c) \<in> candidates others. memberMethod gs k c \<and> stampedBy nxt c" by simp
    have sub: "stampedBy nxt c \<Longrightarrow> stampedBy (DispatchResult mc sec lk) c" for c
      by (auto simp: stampedBy_def Some)
    from similarMethodsForReceiver_inv [OF m0] stamped
    have M: "\<forall>(k, c) \<in> candidates (map (\<lambda>(k, xs). (k, map ?st xs)) m0).
               memberMethod gs k c \<and> stampedBy (DispatchResult mc sec lk) c"
      unfolding candidates_map_values by auto
    from M O sub candidates_mergeSimilarMethods [of "map (\<lambda>(k, xs). (k, map ?st xs)) m0" others]
    have "\<forall>(k, c) \<in> candidates m. memberMethod gs k c \<and> stampedBy (DispatchResult mc sec lk) c"
      unfolding m by blast
    then show ?thesis by (simp add: m wfMap_mergeSimilarMethods)
  qed
qed

lemma insert_sorted_key:
  "(\<And>a b. before a b = (f a < f b)) \<Longrightarrow> insert_sorted before x ys = insort_key f x ys"
  by (induction ys) (auto simp: not_less)

lemma fast_sort_key:
  assumes "\<And>a b. before a b = (f a < f b)"
  shows "fast_sort before xs = sort_key f xs"
  unfolding fast_sort_def sort_key_def
  by (induction xs) (simp_all add: insert_sorted_key [of before f, OF assms])

lemma byDepthThenId_key: "byDepthThenId left right = (depthIdKey left < depthIdKey right)"
  by (auto simp: byDepthThenId_def depthIdKey_def less_prod_def)

lemma rankBefore_key: "rankBefore gs prefix left right = (rankKey gs prefix left < rankKey gs prefix right)"
  by (auto simp: rankBefore_def rankKey_def less_prod_def less_bool_def)

lemma fast_sort_byDepthThenId: "fast_sort byDepthThenId xs = sort_key depthIdKey xs"
  by (rule fast_sort_key) (rule byDepthThenId_key)

lemma fast_sort_rankBefore: "fast_sort (rankBefore gs prefix) xs = sort_key (rankKey gs prefix) xs"
  by (rule fast_sort_key) (rule rankBefore_key)

lemma sort_key_Nil_iff: "sort_key f xs = [] \<longleftrightarrow> xs = []"
proof
  assume "sort_key f xs = []"
  from arg_cong [OF this, of length] show "xs = []" by simp
qed simp

lemma hd_sort_key:
  fixes f :: "'a \<Rightarrow> 'b::linorder"
  assumes "xs \<noteq> []"
  shows "hd (sort_key f xs) \<in> set xs" and "\<forall>c \<in> set xs. f (hd (sort_key f xs)) \<le> f c"
proof -
  have ne: "sort_key f xs \<noteq> []" using assms by (simp add: sort_key_Nil_iff)
  then obtain y ys where s: "sort_key f xs = y # ys" by (cases "sort_key f xs") auto
  have mem: "set xs = insert y (set ys)" using arg_cong [OF s, of set] by simp
  show "hd (sort_key f xs) \<in> set xs" by (simp add: s mem)
  have "sorted (map f (sort_key f xs))" by (rule sorted_sort_key)
  then have "\<forall>c \<in> set ys. f y \<le> f c" by (simp add: s)
  then show "\<forall>c \<in> set xs. f (hd (sort_key f xs)) \<le> f c" by (simp add: s mem)
qed

lemma dedupe_nonempty:
  "\<forall>(k, xs) \<in> set m. xs \<noteq> [] \<Longrightarrow>
   dedupe gs m acc = Inr (acc @ map (\<lambda>(k, xs). hd xs) (filter (notMangled gs) m))"
proof (induction gs m acc rule: dedupe.induct)
  case (1 gs deduped)
  then show ?case by simp
next
  case (2 gs methodName similarMethods rest deduped)
  then show ?case
    by (cases similarMethods) (auto simp: notMangled_def)
qed

lemma filter_sortEachName:
  "filter (notMangled gs) (sortEachName m) = sortEachName (filter (notMangled gs) m)"
  unfolding sortEachName_def by (induction m) (auto simp: notMangled_def)

lemma dedupe_sortEachName:
  assumes "wfMap m"
  shows "dedupe gs (sortEachName m) [] =
           Inr (map (\<lambda>(k, xs). hd (fast_sort byDepthThenId xs)) (filter (notMangled gs) m))"
proof -
  have ne: "\<forall>(k, xs) \<in> set (sortEachName m). xs \<noteq> []"
  proof -
    have "sort_key depthIdKey xs \<noteq> []" if "xs \<noteq> []" for xs :: "SimilarMethod list"
      using that by (simp add: sort_key_Nil_iff)
    with assms show ?thesis
      unfolding wfMap_def sortEachName_def fast_sort_byDepthThenId by auto
  qed
  have "map (\<lambda>(k, xs). hd xs) (sortEachName (filter (notMangled gs) m)) =
        map (\<lambda>(k, xs). hd (fast_sort byDepthThenId xs)) (filter (notMangled gs) m)"
    unfolding sortEachName_def by (simp add: case_prod_unfold comp_def)
  with dedupe_nonempty [OF ne, of gs "[]"] show ?thesis
    by (simp add: filter_sortEachName)
qed

lemmas ex_defs = exGs_def exSymbols_def exNames_def exClass_def exMethod_def exists_def
  noSymbol_def StartsWith_def

lemma exAncestorsA: "ancestors exGs 2 = Some (Inr [2])"
  by (simp add: ancestors_def ancestorsImpl.simps ex_defs)

lemma exAncestorsB: "ancestors exGs 3 = Some (Inr [3, 2])"
  by (simp add: ancestors_def ancestorsImpl.simps ex_defs)

lemma exSimilarB:
  "similarMethodsForClass exGs 3 ''foo'' =
     Some (Inr [(11, [\<lparr>depth = 0, receiver = 3, method = 5, receiverType = None, constr = None\<rparr>]),
                (12, [\<lparr>depth = 0, receiver = 3, method = 6, receiverType = None, constr = None\<rparr>]),
                (10, [\<lparr>depth = 1, receiver = 3, method = 4, receiverType = None, constr = None\<rparr>])])"
  by (simp add: similarMethodsForClass_def exAncestorsB) (simp add: ex_defs)

lemma exSimilarA:
  "similarMethodsForClass exGs 2 ''foo'' =
     Some (Inr [(10, [\<lparr>depth = 0, receiver = 2, method = 4, receiverType = None, constr = None\<rparr>])])"
  by (simp add: similarMethodsForClass_def exAncestorsA) (simp add: ex_defs)

lemma keys_dom: "fst ` set m = dom (map_of m)"
  by (simp add: dom_map_of_conv_image_fst)

lemma components_nonempty: "components dr \<noteq> []"
  by (cases dr) simp

lemma allSimilarMethods_components:
  "components dr = components dr' \<Longrightarrow> allSimilarMethods gs dr p = allSimilarMethods gs dr' p"
proof (induction gs dr p arbitrary: dr' rule: allSimilarMethods.induct)
  case (1 gs mc sec lk prefix)
  obtain mc' sec' lk' where dr': "dr' = DispatchResult mc' sec' lk'" by (cases dr')
  from 1(2) have mc: "mc' = mc" by (simp add: dr')
  show ?case
  proof (cases sec)
    case None
    with 1(2) have "sec' = None"
      using components_nonempty by (cases sec') (auto simp: dr' dest: sym)
    then show ?thesis by (simp add: None dr' mc)
  next
    case (Some nxt)
    with 1(2) obtain nxt' where sec': "sec' = Some nxt'" and c: "components nxt = components nxt'"
      using components_nonempty [of nxt] by (cases sec') (auto simp: dr')
    have "allSimilarMethods gs nxt prefix = allSimilarMethods gs nxt' prefix"
      if "similarMethodsForReceiver gs (dcReceiver mc) prefix = Some (Inr m)" for m
      using 1(1) [OF that refl stampMain [OF that] Some c] .
    then show ?thesis
      unfolding dr' mc sec' Some
        allSimilarMethods_chain [where lk' = OR] allSimilarMethods_single
      by (auto split: option.splits sum.splits)
  qed
qed

lemma deduped_methods_distinct:
  assumes keyed: "keyedByName gs"
    and wf: "wfMap m"
    and mem: "\<forall>(k, c) \<in> candidates m. memberMethod gs k c"
  shows "distinct (map method
           (map (\<lambda>(k, xs). hd (fast_sort byDepthThenId xs)) (filter (notMangled gs) m)))"
proof -
  let ?pick = "\<lambda>(k, xs). hd (fast_sort byDepthThenId xs)"
  have name_of: "name (symbolData gs (method (?pick e))) = fst e" if "e \<in> set m" for e
  proof -
    obtain k xs where e: "e = (k, xs)" by (cases e)
    from that wf have "xs \<noteq> []" by (auto simp: wfMap_def e)
    then have "hd (sort_key depthIdKey xs) \<in> set xs" by (rule hd_sort_key)
    with that have "(k, ?pick e) \<in> candidates m"
      by (auto simp: candidates_def e fast_sort_byDepthThenId)
    with mem have "memberMethod gs k (?pick e)" by blast
    with keyed show ?thesis by (auto simp: memberMethod_def keyedByName_def e)
  qed
  define es where "es = filter (notMangled gs) m"
  define picks where "picks = map ?pick es"
  have names: "map (\<lambda>c. name (symbolData gs (method c))) picks = map fst es"
    unfolding picks_def using name_of by (auto simp: es_def)
  from wf have "distinct (map fst es)"
    by (simp add: wfMap_def distinct_map_filter es_def)
  with names have "distinct (map (\<lambda>s. name (symbolData gs s)) (map method picks))"
    by (simp add: comp_def)
  then have "distinct (map method picks)" by (simp only: distinct_map [of "\<lambda>s. name (symbolData gs s)"])
  then show ?thesis by (simp only: picks_def es_def)
qed

lemma rankBefore_irrefl: "\<not> rankBefore gs prefix c c"
  by (simp add: rankBefore_key)

lemma rankBefore_trans:
  "rankBefore gs prefix a b \<Longrightarrow> rankBefore gs prefix b c \<Longrightarrow> rankBefore gs prefix a c"
  unfolding rankBefore_key by (rule less_trans)

lemma rankBefore_total:
  assumes "method l \<noteq> method r"
  shows "rankBefore gs prefix l r \<noteq> rankBefore gs prefix r l"
proof -
  from assms have "rankKey gs prefix l \<noteq> rankKey gs prefix r" by (auto simp: rankKey_def)
  then show ?thesis unfolding rankBefore_key by auto
qed

lemma digit_cases:
  assumes "(d::nat) < 10"
  shows "d = 0 \<or> d = 1 \<or> d = 2 \<or> d = 3 \<or> d = 4 \<or> d = 5 \<or> d = 6 \<or> d = 7 \<or> d = 8 \<or> d = 9"
  using assms by arith

lemma digit_char:
  assumes "d < 10"
  shows "of_char (''0123456789'' ! d) = (48 + d :: nat)"
  using digit_cases [OF assms] by (elim disjE) simp_all

lemma digitsValue_snoc: "digitsValue (s @ [ch]) = 10 * digitsValue s + (of_char ch - 48)"
  by (simp add: digitsValue_def)

lemma digitsValue_decimal: "digitsValue (decimal n) = n"
proof (induction n rule: decimal.induct)
  case (1 n)
  show ?case
  proof (cases "n < 10")
    case True
    then show ?thesis
      by (subst decimal.simps) (simp add: digitsValue_def digit_char)
  next
    case False
    have "n mod 10 < 10" by simp
    from digit_char [OF this] 1 [OF False] False show ?thesis
      by (subst decimal.simps) (simp add: digitsValue_snoc)
  qed
qed

lemma digitsValue_zeros: "digitsValue (replicate k (CHR ''0'') @ s) = digitsValue s"
proof -
  have "foldl (\<lambda>acc ch. 10 * acc + (of_char ch - 48)) 0 (replicate k (CHR ''0'')) = (0::nat)"
    by (induction k) simp_all
  then show ?thesis by (simp add: digitsValue_def)
qed

lemma decimal_nonempty: "0 < length (decimal n)"
  by (subst decimal.simps) simp

lemma decimal_length: "0 < k \<Longrightarrow> length (decimal n) \<le> k \<longleftrightarrow> n < 10 ^ k"
proof (induction n arbitrary: k rule: decimal.induct)
  case (1 n)
  show ?case
  proof (cases "n < 10")
    case True
    have "(10::nat) ^ 1 \<le> 10 ^ k" using 1(2) by (intro power_increasing) simp_all
    with True have "n < 10 ^ k" by simp
    moreover from True have "length (decimal n) = 1" by (subst decimal.simps) simp
    ultimately show ?thesis using 1(2) by simp
  next
    case False
    then have len: "length (decimal n) = Suc (length (decimal (n div 10)))"
      by (subst decimal.simps) simp
    show ?thesis
    proof (cases k)
      case 0
      with 1(2) show ?thesis by simp
    next
      case (Suc j)
      show ?thesis
      proof (cases "j = 0")
        case True
        with False Suc decimal_nonempty [of "n div 10"] show ?thesis by (simp add: len)
      next
        case j: False
        then have "length (decimal (n div 10)) \<le> j \<longleftrightarrow> n div 10 < 10 ^ j"
          by (intro 1(1) [OF False]) simp
        moreover have "n div 10 < 10 ^ j \<longleftrightarrow> n < 10 ^ Suc j"
          by (simp add: div_less_iff_less_mult mult.commute)
        ultimately show ?thesis by (simp add: len Suc)
      qed
    qed
  qed
qed

lemma format_06d_small: "n \<le> 999999 \<Longrightarrow> length (format_06d n) = 6"
proof -
  assume "n \<le> 999999"
  then have "n < 10 ^ 6" by simp
  then have "length (decimal n) \<le> 6" by (simp add: decimal_length)
  then show ?thesis by (simp add: format_06d_def)
qed

lemma format_06d_large:
  assumes "999999 < n"
  shows "format_06d n = decimal n" and "6 < length (decimal n)"
proof -
  from assms have "\<not> n < 10 ^ 6" by simp
  then have "\<not> length (decimal n) \<le> 6" by (simp add: decimal_length)
  then show "format_06d n = decimal n" and "6 < length (decimal n)"
    by (simp_all add: format_06d_def)
qed

lemma digitsValue_format_06d: "digitsValue (format_06d n) = n"
  by (simp add: format_06d_def digitsValue_zeros digitsValue_decimal)

lemma exSimilarB':
  "similarMethodsForClass exGs 3 ''foo'' =
     Some (Inr [(11, [exCandidate 0 3 5 None None]), (12, [exCandidate 0 3 6 None None]),
                (10, [exCandidate 1 3 4 None None])])"
  by (simp add: exSimilarB exCandidate_def)

lemma exSimilarA':
  "similarMethodsForClass exGs 2 ''foo'' = Some (Inr [(10, [exCandidate 0 2 4 None None])])"
  by (simp add: exSimilarA exCandidate_def)

lemma exAllA:
  "allSimilarMethods exGs exDispatchA ''foo'' =
     Some (Inr [(10, [exCandidate 0 2 4 (Some (ClassType 2)) (Some 7)])])"
  by (simp add: exDispatchA_def exSimilarA' exCandidate_def)

lemma exAllB:
  "allSimilarMethods exGs exDispatchB ''foo'' =
     Some (Inr [(11, [exCandidate 0 3 5 (Some (ClassType 3)) None]),
                (12, [exCandidate 0 3 6 (Some (ClassType 3)) None]),
                (10, [exCandidate 1 3 4 (Some (ClassType 3)) None])])"
  by (simp add: exDispatchB_def exSimilarB' exCandidate_def)

lemma exKeyed: "keyedByName exGs"
  by (auto simp: keyedByName_def ex_defs split: if_splits)

lemma stampVector_fault_kind:
  "stampVector rt cn xs = Inl f \<Longrightarrow> f = OverwriteReceiverType \<or> f = OverwriteConstr"
  by (induction xs) (auto split: if_splits sum.splits)

lemma stampAll_fault_kind:
  "stampAll rt cn m = Inl f \<Longrightarrow> f = OverwriteReceiverType \<or> f = OverwriteConstr"
proof (induction m)
  case Nil
  then show ?case by simp
next
  case (Cons e m)
  obtain k xs where e: "e = (k, xs)" by (cases e)
  from Cons show ?case
    by (auto simp: e split: sum.splits dest: stampVector_fault_kind)
qed

lemma stampVector_Inr_unstamped:
  "stampVector rt cn xs = Inr ys \<Longrightarrow> \<forall>c \<in> set xs. unstamped c"
  by (induction xs arbitrary: ys) (auto simp: unstamped_def split: if_splits sum.splits)

lemma stampAll_Inr_unstamped:
  "stampAll rt cn m = Inr m' \<Longrightarrow> \<forall>(k, c) \<in> candidates m. unstamped c"
proof (induction m arbitrary: m')
  case Nil
  then show ?case by simp
next
  case (Cons e m)
  obtain k xs where e: "e = (k, xs)" by (cases e)
  from Cons.prems obtain ys rest where v: "stampVector rt cn xs = Inr ys"
    and r: "stampAll rt cn m = Inr rest"
    by (auto simp: e split: sum.splits)
  from stampVector_Inr_unstamped [OF v] Cons.IH [OF r] show ?case
    by (auto simp: e candidates_Cons)
qed

lemma stampAll_overwrite_faults:
  assumes "(k, c) \<in> candidates m" and "receiverType c \<noteq> None \<or> constr c \<noteq> None"
  shows "stampAll rt cn m = Inl OverwriteReceiverType \<or> stampAll rt cn m = Inl OverwriteConstr"
proof (cases "stampAll rt cn m")
  case (Inl f)
  with stampAll_fault_kind [OF Inl] show ?thesis by auto
next
  case (Inr m')
  from stampAll_Inr_unstamped [OF Inr] assms show ?thesis
    by (auto simp: unstamped_def)
qed

lemma stamp_update: "stamp rt cn = (\<lambda>c. c\<lparr>receiverType := Some rt, constr := cn\<rparr>)"
  by (simp add: stamp_def fun_eq_iff)

lemma allSimilarMethods_provenance:
  "allSimilarMethods gs dr p = Some (Inr m) \<Longrightarrow>
   \<forall>(k, c) \<in> candidates m. \<exists>component \<in> set (components dr). stampedOnceBy gs p component k c"
proof (induction gs dr p arbitrary: m rule: allSimilarMethods.induct)
  case (1 gs mc sec lk prefix)
  let ?st = "stamp (dcReceiver mc) (dcConstr mc)"
  have mainPart: "\<forall>(k, c) \<in> candidates (map (\<lambda>(k, xs). (k, map ?st xs)) m0).
      stampedOnceBy gs prefix mc k c"
    if m0: "similarMethodsForReceiver gs (dcReceiver mc) prefix = Some (Inr m0)" for m0
  proof -
    from similarMethodsForReceiver_inv [OF m0]
    have u: "\<forall>(k, c) \<in> candidates m0. unstamped c" by auto
    have "stampedOnceBy gs prefix mc k (?st c0)" if "(k, c0) \<in> candidates m0" for k c0
    proof -
      from u that have "receiverType c0 = None" "constr c0 = None"
        by (auto simp: unstamped_def)
      with m0 that show ?thesis
        unfolding stampedOnceBy_def stamp_def by blast
    qed
    then show ?thesis unfolding candidates_map_values by auto
  qed
  show ?case
  proof (cases sec)
    case None
    from 1(2) obtain m0 where m0: "similarMethodsForReceiver gs (dcReceiver mc) prefix = Some (Inr m0)"
      and m: "m = map (\<lambda>(k, xs). (k, map ?st xs)) m0"
      unfolding None allSimilarMethods_single by (auto split: option.splits sum.splits)
    from mainPart [OF m0] show ?thesis unfolding m by auto
  next
    case (Some nxt)
    from 1(2) obtain m0 others where
      m0: "similarMethodsForReceiver gs (dcReceiver mc) prefix = Some (Inr m0)"
      and others: "allSimilarMethods gs nxt prefix = Some (Inr others)"
      and m: "m = mergeSimilarMethods (map (\<lambda>(k, xs). (k, map ?st xs)) m0) others"
      unfolding Some allSimilarMethods_chain [where lk' = lk] allSimilarMethods_single
      by (auto split: option.splits sum.splits)
    from 1(1) [OF m0 refl stampMain [OF m0] Some others]
    have O: "\<forall>(k, c) \<in> candidates others.
        \<exists>component \<in> set (components nxt). stampedOnceBy gs prefix component k c" .
    have comps: "components (DispatchResult mc sec lk) = mc # components nxt"
      by (simp add: Some)
    from mainPart [OF m0] O
      candidates_mergeSimilarMethods [of "map (\<lambda>(k, xs). (k, map ?st xs)) m0" others]
    show ?thesis unfolding m comps by fastforce
  qed
qed

subsection \<open>Candidates of one class: depth and receiver\<close>

text \<open>
  Claim C1, as amended. Whenever \<open>ancestors gs C\<close> returns the vector \<open>ancs\<close>,
  \<open>similarMethodsForClass gs C prefix\<close> returns a map; \<open>ancs\<close> starts with \<open>C\<close>, so
  the depth counter is 0 at \<open>C\<close> itself; and the candidates of the map are exactly the
  records with \<open>depth = i\<close>, \<open>receiver = C\<close> and null receiver type and constraint, one
  for each position \<open>i\<close> of \<open>ancs\<close> and each method member of the ancestor at position
  \<open>i\<close> whose name is similar to the prefix, filed under the member's name. The depth is
  the position of the ancestor in the vector (mixins count), and the second field is the
  class the search started from, not the ancestor that declares the method.
\<close>

theorem similarMethodsForClass_depth_and_receiver:
  assumes "ancestors gs C = Some (Inr ancs)"
  shows "\<exists>m. similarMethodsForClass gs C prefix = Some (Inr m) \<and>
           hd ancs = C \<and> ancs \<noteq> [] \<and>
           (\<forall>k c. (k, c) \<in> candidates m \<longleftrightarrow>
              (\<exists>i < length ancs. \<exists>s.
                 (k, s) \<in> set (members (symbolData gs (ancs ! i))) \<and>
                 isMethod (symbolData gs s) \<and> hasSimilarName gs k prefix \<and>
                 c = \<lparr>depth = int i, receiver = C, method = s,
                      receiverType = None, constr = None\<rparr>))"
proof -
  from assms ancestorsImpl_extends [of gs C "[]" ancs] obtain rest where "ancs = C # rest"
    by (auto simp: ancestors_def)
  then have "hd ancs = C" "ancs \<noteq> []" by simp_all
  moreover have "similarMethodsForClass gs C prefix =
      Some (Inr (scanAncestors gs prefix C (- 1) ancs []))"
    by (simp add: similarMethodsForClass_def assms)
  moreover have "(k, c) \<in> candidates (scanAncestors gs prefix C (- 1) ancs []) \<longleftrightarrow>
              (\<exists>i < length ancs. \<exists>s.
                 (k, s) \<in> set (members (symbolData gs (ancs ! i))) \<and>
                 isMethod (symbolData gs s) \<and> hasSimilarName gs k prefix \<and>
                 c = \<lparr>depth = int i, receiver = C, method = s,
                      receiverType = None, constr = None\<rparr>)" for k c
    by (simp add: in_candidates_scanAncestors foundAt_def)
  ultimately show ?thesis by blast
qed

text \<open>
  The theorem at class \<open>B\<close> of the example: \<open>foo_bar\<close>, found in the members of \<open>A\<close>,
  is a candidate of depth 1 with receiver \<open>B\<close>.
\<close>

theorem similarMethodsForClass_depth_and_receiver_witness:
  "ancestors exGs 3 = Some (Inr [3, 2]) \<and>
   (\<exists>m. similarMethodsForClass exGs 3 ''foo'' = Some (Inr m) \<and>
        (10, exCandidate 1 3 4 None None) \<in> candidates m)"
proof -
  from similarMethodsForClass_depth_and_receiver [OF exAncestorsB, of "''foo''"] obtain m where
    m: "similarMethodsForClass exGs 3 ''foo'' = Some (Inr m)"
    and c: "\<And>k c. (k, c) \<in> candidates m \<longleftrightarrow>
              (\<exists>i < length [3, 2 :: nat]. \<exists>s.
                 (k, s) \<in> set (members (symbolData exGs ([3, 2] ! i))) \<and>
                 isMethod (symbolData exGs s) \<and> hasSimilarName exGs k ''foo'' \<and>
                 c = \<lparr>depth = int i, receiver = 3, method = s,
                      receiverType = None, constr = None\<rparr>)"
    by blast
  have "\<exists>i < length [3, 2 :: nat]. \<exists>s.
          (10, s) \<in> set (members (symbolData exGs ([3, 2] ! i))) \<and>
          isMethod (symbolData exGs s) \<and> hasSimilarName exGs 10 ''foo'' \<and>
          exCandidate 1 3 4 None None = \<lparr>depth = int i, receiver = 3, method = s,
                      receiverType = None, constr = None\<rparr>"
    by (rule exI [of _ 1], simp, rule exI [of _ 4]) (simp add: ex_defs exCandidate_def)
  with c have "(10, exCandidate 1 3 4 None None) \<in> candidates m" by blast
  with m exAncestorsB show ?thesis by blast
qed

text \<open>
  Claim C1 as it is stated fails there: the candidate for \<open>foo_bar\<close> was found in the
  members of the ancestor at position 1, which is \<open>A\<close> (symbol 2), and its second field
  is \<open>B\<close> (symbol 3). The entries of the map are listed in the order of the model.
\<close>

theorem similarMethodsForClass_declaring_ancestor_counterexample:
  "ancestors exGs 3 = Some (Inr [3, 2]) \<and>
   similarMethodsForClass exGs 3 ''foo'' =
     Some (Inr [(11, [exCandidate 0 3 5 None None]), (12, [exCandidate 0 3 6 None None]),
                (10, [exCandidate 1 3 4 None None])]) \<and>
   (10, 4) \<in> set (members (symbolData exGs ([3, 2] ! 1))) \<and>
   depth (exCandidate 1 3 4 None None) = 1 \<and>
   receiver (exCandidate 1 3 4 None None) = 3 \<and>
   receiver (exCandidate 1 3 4 None None) \<noteq> [3, 2] ! 1"
  by (simp add: exAncestorsB exSimilarB') (simp add: ex_defs exCandidate_def)

subsection \<open>Intersection types\<close>

text \<open>
  Claim C2. When the candidates of \<open>l\<close> and of \<open>r\<close> are the maps \<open>lm\<close> and \<open>rm\<close>, the
  candidates of \<open>AndType l r\<close> are a map that has every name once, whose names are
  exactly the names of both \<open>lm\<close> and \<open>rm\<close>, and that gives each of them the vector of
  \<open>lm\<close> followed by the vector of \<open>rm\<close>, nothing removed; a name that only one of
  the two maps has is absent.
\<close>

theorem similarMethodsForReceiver_AndType_intersects:
  assumes "similarMethodsForReceiver gs l prefix = Some (Inr lm)"
    and "similarMethodsForReceiver gs r prefix = Some (Inr rm)"
  shows "\<exists>m. similarMethodsForReceiver gs (AndType l r) prefix = Some (Inr m) \<and>
           distinct (map fst m) \<and>
           fst ` set m = fst ` set lm \<inter> fst ` set rm \<and>
           (\<forall>k. map_of m k =
              (case map_of lm k of
                 None \<Rightarrow> None
               | Some a \<Rightarrow> (case map_of rm k of None \<Rightarrow> None | Some b \<Rightarrow> Some (a @ b))))"
proof -
  let ?m = "mergeSimilarMethods lm rm"
  from similarMethodsForReceiver_inv [OF assms(1)] have wf: "wfMap lm" by simp
  have look: "map_of ?m k =
      (case map_of lm k of
         None \<Rightarrow> None
       | Some a \<Rightarrow> (case map_of rm k of None \<Rightarrow> None | Some b \<Rightarrow> Some (a @ b)))" for k
    by (rule map_of_mergeSimilarMethods [OF wf])
  have "dom (map_of ?m) = dom (map_of lm) \<inter> dom (map_of rm)"
    by (auto simp: dom_def look split: option.splits)
  then have "fst ` set ?m = fst ` set lm \<inter> fst ` set rm" by (simp add: keys_dom)
  moreover have "distinct (map fst ?m)"
    using wfMap_mergeSimilarMethods [of lm rm] by (simp add: wfMap_def)
  moreover have "similarMethodsForReceiver gs (AndType l r) prefix = Some (Inr ?m)"
    by (simp add: assms)
  ultimately show ?thesis using look by blast
qed

text \<open>
  In the example \<open>foo_bar\<close> is a method of \<open>A\<close> and of \<open>B\<close> (inherited), \<open>foo_baz\<close>
  only of \<open>B\<close>: the intersection keeps \<open>foo_bar\<close> with both candidates and drops
  \<open>foo_baz\<close>.
\<close>

theorem similarMethodsForReceiver_AndType_intersects_witness:
  "\<exists>m. similarMethodsForReceiver exGs (AndType (ClassType 2) (ClassType 3)) ''foo'' =
          Some (Inr m) \<and>
       fst ` set m = {10} \<and>
       map_of m 10 = Some [exCandidate 0 2 4 None None, exCandidate 1 3 4 None None] \<and>
       map_of m 11 = None"
proof -
  have l: "similarMethodsForReceiver exGs (ClassType 2) ''foo'' =
      Some (Inr [(10, [exCandidate 0 2 4 None None])])"
    by (simp add: exSimilarA')
  have r: "similarMethodsForReceiver exGs (ClassType 3) ''foo'' =
      Some (Inr [(11, [exCandidate 0 3 5 None None]), (12, [exCandidate 0 3 6 None None]),
                (10, [exCandidate 1 3 4 None None])])"
    by (simp add: exSimilarB')
  from similarMethodsForReceiver_AndType_intersects [OF l r] show ?thesis by auto
qed

subsection \<open>Dispatch chains\<close>

text \<open>
  Claim C3. For a dispatch result with a secondary link, when the main component alone
  gives the map \<open>mainMap\<close> and the secondary chain gives \<open>others\<close>, the result is
  \<open>mergeSimilarMethods mainMap others\<close>: its names are the names of both maps, each with
  the main vector followed by the secondary one. The kind of the link is not read: the
  result is the same for every kind, and for every chain with the same components.
\<close>

theorem allSimilarMethods_secondary_intersects:
  assumes "allSimilarMethods gs (DispatchResult mc None lk) prefix = Some (Inr mainMap)"
    and "allSimilarMethods gs nxt prefix = Some (Inr others)"
  shows "\<exists>m. allSimilarMethods gs (DispatchResult mc (Some nxt) lk) prefix = Some (Inr m) \<and>
           m = mergeSimilarMethods mainMap others \<and>
           (\<forall>lk'. allSimilarMethods gs (DispatchResult mc (Some nxt) lk') prefix = Some (Inr m)) \<and>
           (\<forall>other. components other = components (DispatchResult mc (Some nxt) lk) \<longrightarrow>
              allSimilarMethods gs other prefix = Some (Inr m)) \<and>
           fst ` set m = fst ` set mainMap \<inter> fst ` set others \<and>
           (\<forall>k. map_of m k =
              (case map_of mainMap k of
                 None \<Rightarrow> None
               | Some a \<Rightarrow> (case map_of others k of None \<Rightarrow> None | Some b \<Rightarrow> Some (a @ b))))"
proof -
  let ?m = "mergeSimilarMethods mainMap others"
  from allSimilarMethods_inv [OF assms(1)] have wf: "wfMap mainMap" by simp
  have look: "map_of ?m k =
      (case map_of mainMap k of
         None \<Rightarrow> None
       | Some a \<Rightarrow> (case map_of others k of None \<Rightarrow> None | Some b \<Rightarrow> Some (a @ b)))" for k
    by (rule map_of_mergeSimilarMethods [OF wf])
  have "dom (map_of ?m) = dom (map_of mainMap) \<inter> dom (map_of others)"
    by (auto simp: dom_def look split: option.splits)
  then have keys: "fst ` set ?m = fst ` set mainMap \<inter> fst ` set others" by (simp add: keys_dom)
  have all: "allSimilarMethods gs (DispatchResult mc (Some nxt) lk') prefix = Some (Inr ?m)" for lk'
    unfolding allSimilarMethods_chain [where lk' = lk] assms by simp
  have "allSimilarMethods gs other prefix = Some (Inr ?m)"
    if "components other = components (DispatchResult mc (Some nxt) lk)" for other
    using allSimilarMethods_components [OF that, of gs prefix] all [of lk] by simp
  with all keys look show ?thesis by blast
qed

text \<open>
  In the example the main receiver is \<open>A\<close> and the secondary receiver is \<open>B\<close>:
  \<open>foo_baz\<close>, which only \<open>B\<close> has, is excluded, for a link of kind \<open>AND\<close> and of kind
  \<open>OR\<close> alike.
\<close>

theorem allSimilarMethods_secondary_intersects_witness:
  "\<exists>m. allSimilarMethods exGs exDispatchAB ''foo'' = Some (Inr m) \<and>
       allSimilarMethods exGs
         (DispatchResult (DispatchComponent (ClassType 2) (Some 7)) (Some exDispatchB) OR)
         ''foo'' = Some (Inr m) \<and>
       fst ` set m = {10} \<and>
       map_of m 10 = Some [exCandidate 0 2 4 (Some (ClassType 2)) (Some 7),
                           exCandidate 1 3 4 (Some (ClassType 3)) None] \<and>
       map_of m 11 = None"
proof -
  from allSimilarMethods_secondary_intersects [OF exAllA [unfolded exDispatchA_def] exAllB] show ?thesis
    unfolding exDispatchAB_def by auto
qed

subsection \<open>The final comparator\<close>

text \<open>
  Claim C4. \<open>rankBefore\<close> orders by depth ascending, then names that start with the
  prefix before the others, then by short name, then by method index. It is irreflexive
  and transitive, and any two candidates with different methods are ordered one way and
  not the other. In a symbol table that enters each method under its own name, the
  candidates of the deduplicated sequence of a dispatch result have pairwise different
  methods, so for any two of them at different positions exactly one is before the other.
\<close>

theorem rankBefore_strict_total_order:
  "(rankBefore gs prefix left right \<longleftrightarrow>
      depth left < depth right \<or>
      depth left = depth right \<and>
      (StartsWith (methodShortName gs (method left)) prefix \<and>
       \<not> StartsWith (methodShortName gs (method right)) prefix \<or>
       (StartsWith (methodShortName gs (method left)) prefix \<longleftrightarrow>
        StartsWith (methodShortName gs (method right)) prefix) \<and>
       (methodShortName gs (method left) < methodShortName gs (method right) \<or>
        methodShortName gs (method left) = methodShortName gs (method right) \<and>
        method left < method right))) \<and>
   \<not> rankBefore gs prefix a a \<and>
   (rankBefore gs prefix a b \<longrightarrow> rankBefore gs prefix b c \<longrightarrow> rankBefore gs prefix a c) \<and>
   (method a \<noteq> method b \<longrightarrow> rankBefore gs prefix a b \<noteq> rankBefore gs prefix b a) \<and>
   (keyedByName gs \<longrightarrow> allSimilarMethods gs dispatchResult prefix = Some (Inr m) \<longrightarrow>
      (\<exists>deduped. dedupe gs (sortEachName m) [] = Inr deduped \<and>
         (\<forall>i < length deduped. \<forall>j < length deduped. i \<noteq> j \<longrightarrow>
            rankBefore gs prefix (deduped ! i) (deduped ! j) \<noteq>
            rankBefore gs prefix (deduped ! j) (deduped ! i))))"
proof (intro conjI impI)
  show "rankBefore gs prefix left right \<longleftrightarrow>
      depth left < depth right \<or>
      depth left = depth right \<and>
      (StartsWith (methodShortName gs (method left)) prefix \<and>
       \<not> StartsWith (methodShortName gs (method right)) prefix \<or>
       (StartsWith (methodShortName gs (method left)) prefix \<longleftrightarrow>
        StartsWith (methodShortName gs (method right)) prefix) \<and>
       (methodShortName gs (method left) < methodShortName gs (method right) \<or>
        methodShortName gs (method left) = methodShortName gs (method right) \<and>
        method left < method right))"
    by (auto simp: rankBefore_def)
  show "\<not> rankBefore gs prefix a a" by (rule rankBefore_irrefl)
  show "rankBefore gs prefix a c" if "rankBefore gs prefix a b" "rankBefore gs prefix b c"
    using that by (rule rankBefore_trans)
  show "rankBefore gs prefix a b \<noteq> rankBefore gs prefix b a" if "method a \<noteq> method b"
    using that by (rule rankBefore_total)
next
  assume keyed: "keyedByName gs"
    and m: "allSimilarMethods gs dispatchResult prefix = Some (Inr m)"
  define ds where
    "ds = map (\<lambda>(k, xs). hd (fast_sort byDepthThenId xs)) (filter (notMangled gs) m)"
  from allSimilarMethods_inv [OF m] have wf: "wfMap m"
    and mem: "\<forall>(k, c) \<in> candidates m. memberMethod gs k c" by auto
  have d: "dedupe gs (sortEachName m) [] = Inr ds"
    unfolding ds_def by (rule dedupe_sortEachName [OF wf])
  have dist: "distinct (map method ds)"
    unfolding ds_def by (rule deduped_methods_distinct [OF keyed wf mem])
  have "rankBefore gs prefix (ds ! i) (ds ! j) \<noteq> rankBefore gs prefix (ds ! j) (ds ! i)"
    if "i < length ds" "j < length ds" "i \<noteq> j" for i j
  proof -
    from nth_eq_iff_index_eq [OF dist, of i j] that
    have "map method ds ! i \<noteq> map method ds ! j" by simp
    with that have "method (ds ! i) \<noteq> method (ds ! j)" by simp
    then show ?thesis by (rule rankBefore_total)
  qed
  with d show "\<exists>deduped. dedupe gs (sortEachName m) [] = Inr deduped \<and>
         (\<forall>i < length deduped. \<forall>j < length deduped. i \<noteq> j \<longrightarrow>
            rankBefore gs prefix (deduped ! i) (deduped ! j) \<noteq>
            rankBefore gs prefix (deduped ! j) (deduped ! i))"
    by blast
qed

text \<open>
  The example table enters each method under its own name; the deduplicated sequence of
  the dispatch on \<open>B\<close> has two candidates, ordered one way only.
\<close>

theorem rankBefore_strict_total_order_witness:
  "\<exists>deduped. dedupe exGs
       (sortEachName [(11, [exCandidate 0 3 5 (Some (ClassType 3)) None]),
                      (12, [exCandidate 0 3 6 (Some (ClassType 3)) None]),
                      (10, [exCandidate 1 3 4 (Some (ClassType 3)) None])]) [] = Inr deduped \<and>
     deduped = [exCandidate 0 3 5 (Some (ClassType 3)) None,
                exCandidate 1 3 4 (Some (ClassType 3)) None] \<and>
     rankBefore exGs ''foo'' (deduped ! 0) (deduped ! 1) \<noteq>
     rankBefore exGs ''foo'' (deduped ! 1) (deduped ! 0)"
proof -
  let ?m = "[(11, [exCandidate 0 3 5 (Some (ClassType 3)) None]),
             (12, [exCandidate 0 3 6 (Some (ClassType 3)) None]),
             (10, [exCandidate 1 3 4 (Some (ClassType 3)) None])]"
  have "keyedByName exGs \<longrightarrow> allSimilarMethods exGs exDispatchB ''foo'' = Some (Inr ?m) \<longrightarrow>
      (\<exists>deduped. dedupe exGs (sortEachName ?m) [] = Inr deduped \<and>
         (\<forall>i < length deduped. \<forall>j < length deduped. i \<noteq> j \<longrightarrow>
            rankBefore exGs ''foo'' (deduped ! i) (deduped ! j) \<noteq>
            rankBefore exGs ''foo'' (deduped ! j) (deduped ! i)))"
    using rankBefore_strict_total_order [of exGs "''foo''" _ _ _ _ _ exDispatchB ?m] by blast
  with exKeyed exAllB obtain deduped where
    d: "dedupe exGs (sortEachName ?m) [] = Inr deduped"
    and t: "\<forall>i < length deduped. \<forall>j < length deduped. i \<noteq> j \<longrightarrow>
            rankBefore exGs ''foo'' (deduped ! i) (deduped ! j) \<noteq>
            rankBefore exGs ''foo'' (deduped ! j) (deduped ! i)"
    by blast
  have "dedupe exGs (sortEachName ?m) [] =
      Inr [exCandidate 0 3 5 (Some (ClassType 3)) None,
           exCandidate 1 3 4 (Some (ClassType 3)) None]"
    by (simp add: sortEachName_def fast_sort_def isMangleRename_def ex_defs)
  with d have e: "deduped = [exCandidate 0 3 5 (Some (ClassType 3)) None,
                exCandidate 1 3 4 (Some (ClassType 3)) None]" by simp
  from e have "0 < length deduped" and "1 < length deduped" by simp_all
  from t [rule_format, OF this]
  have "rankBefore exGs ''foo'' (deduped ! 0) (deduped ! 1) \<noteq>
     rankBefore exGs ''foo'' (deduped ! 1) (deduped ! 0)" by simp
  with d e show ?thesis by blast
qed

subsection \<open>Deduplication\<close>

text \<open>
  Claim C5. For the map \<open>m\<close> of a dispatch result the deduplication loop does not fault.
  Its result has, in the order of the map, one candidate for each name that is not a
  rename-mangled name and none for the others: the first element of the name's sorted
  vector. Each name occurs once in the map; that first element is a candidate of the
  name's vector with the least depth and, among those of the least depth, the least method
  index. The ranked output is a permutation of the deduplicated sequence.
\<close>

theorem dedupe_skips_mangled_keeps_nearest:
  assumes "allSimilarMethods gs dispatchResult prefix = Some (Inr m)"
  shows "\<exists>deduped ranked.
           dedupe gs (sortEachName m) [] = Inr deduped \<and>
           deduped = map (\<lambda>(k, xs). hd (fast_sort byDepthThenId xs))
                       (filter (\<lambda>(k, xs). \<not> isMangleRename gs k) m) \<and>
           rankedMethods gs dispatchResult prefix = Some (Inr ranked) \<and>
           mset ranked = mset deduped \<and>
           distinct (map fst m) \<and>
           (\<forall>(k, xs) \<in> set m.
              xs \<noteq> [] \<and> hd (fast_sort byDepthThenId xs) \<in> set xs \<and>
              (\<forall>c \<in> set xs.
                 depth (hd (fast_sort byDepthThenId xs)) \<le> depth c \<and>
                 (depth c = depth (hd (fast_sort byDepthThenId xs)) \<longrightarrow>
                    method (hd (fast_sort byDepthThenId xs)) \<le> method c)))"
proof -
  let ?ds = "map (\<lambda>(k, xs). hd (fast_sort byDepthThenId xs))
               (filter (\<lambda>(k, xs). \<not> isMangleRename gs k) m)"
  from allSimilarMethods_inv [OF assms] have wf: "wfMap m" by simp
  have nm: "notMangled gs = (\<lambda>(k, xs). \<not> isMangleRename gs k)"
    by (auto simp: notMangled_def fun_eq_iff)
  have d: "dedupe gs (sortEachName m) [] = Inr ?ds"
    using dedupe_sortEachName [OF wf, of gs] by (simp add: nm)
  have r: "rankedMethods gs dispatchResult prefix =
      Some (Inr (fast_sort (rankBefore gs prefix) ?ds))"
    by (simp add: rankedMethods_def assms d)
  have p: "mset (fast_sort (rankBefore gs prefix) ?ds) = mset ?ds"
    by (simp add: fast_sort_rankBefore)
  have each: "xs \<noteq> [] \<and> hd (fast_sort byDepthThenId xs) \<in> set xs \<and>
              (\<forall>c \<in> set xs.
                 depth (hd (fast_sort byDepthThenId xs)) \<le> depth c \<and>
                 (depth c = depth (hd (fast_sort byDepthThenId xs)) \<longrightarrow>
                    method (hd (fast_sort byDepthThenId xs)) \<le> method c))"
    if "(k, xs) \<in> set m" for k xs
  proof -
    from that wf have ne: "xs \<noteq> []" by (auto simp: wfMap_def)
    from hd_sort_key [OF ne, of depthIdKey]
    have "hd (sort_key depthIdKey xs) \<in> set xs"
      and "\<forall>c \<in> set xs. depthIdKey (hd (sort_key depthIdKey xs)) \<le> depthIdKey c" by auto
    with ne show ?thesis
      unfolding fast_sort_byDepthThenId
      by (auto simp: depthIdKey_def less_eq_prod_def)
  qed
  from wf have "distinct (map fst m)" by (simp add: wfMap_def)
  with d r p each show ?thesis by blast
qed

text \<open>
  In the example the mangled name 12 is skipped and the two other names contribute their
  only candidate.
\<close>

theorem dedupe_skips_mangled_keeps_nearest_witness:
  "isMangleRename exGs 12 \<and>
   (\<exists>deduped ranked.
      dedupe exGs
        (sortEachName [(11, [exCandidate 0 3 5 (Some (ClassType 3)) None]),
                       (12, [exCandidate 0 3 6 (Some (ClassType 3)) None]),
                       (10, [exCandidate 1 3 4 (Some (ClassType 3)) None])]) [] = Inr deduped \<and>
      deduped = [exCandidate 0 3 5 (Some (ClassType 3)) None,
                 exCandidate 1 3 4 (Some (ClassType 3)) None] \<and>
      rankedMethods exGs exDispatchB ''foo'' = Some (Inr ranked) \<and>
      mset ranked = mset deduped)"
proof -
  from dedupe_skips_mangled_keeps_nearest [OF exAllB] obtain deduped ranked where
    d: "dedupe exGs
        (sortEachName [(11, [exCandidate 0 3 5 (Some (ClassType 3)) None]),
                       (12, [exCandidate 0 3 6 (Some (ClassType 3)) None]),
                       (10, [exCandidate 1 3 4 (Some (ClassType 3)) None])]) [] = Inr deduped"
    and e: "deduped = map (\<lambda>(k, xs). hd (fast_sort byDepthThenId xs))
              (filter (\<lambda>(k, xs). \<not> isMangleRename exGs k)
                 [(11, [exCandidate 0 3 5 (Some (ClassType 3)) None]),
                  (12, [exCandidate 0 3 6 (Some (ClassType 3)) None]),
                  (10, [exCandidate 1 3 4 (Some (ClassType 3)) None])])"
    and r: "rankedMethods exGs exDispatchB ''foo'' = Some (Inr ranked)"
    and p: "mset ranked = mset deduped"
    by blast
  have mangled: "isMangleRename exGs 12" "\<not> isMangleRename exGs 11" "\<not> isMangleRename exGs 10"
    by (simp_all add: isMangleRename_def ex_defs)
  from e mangled have "deduped = [exCandidate 0 3 5 (Some (ClassType 3)) None,
                 exCandidate 1 3 4 (Some (ClassType 3)) None]"
    by (simp add: fast_sort_def)
  with d r p mangled(1) show ?thesis by blast
qed

subsection \<open>Proxy types\<close>

text \<open>
  Claim C6. The candidates of \<open>ProxyType u\<close> are the candidates of \<open>u\<close>, for every
  outcome of the latter.
\<close>

theorem similarMethodsForReceiver_ProxyType_transparent:
  "similarMethodsForReceiver gs (ProxyType u) p = similarMethodsForReceiver gs u p"
  by simp

text \<open>The theorem at a proxy for class \<open>A\<close> of the example.\<close>

theorem similarMethodsForReceiver_ProxyType_transparent_witness:
  "similarMethodsForReceiver exGs (ProxyType (ClassType 2)) ''foo'' =
     Some (Inr [(10, [exCandidate 0 2 4 None None])])"
  by (subst similarMethodsForReceiver_ProxyType_transparent) (simp add: exSimilarA')

subsection \<open>The sort text\<close>

text \<open>
  Claim C7, as amended. For a symbol that exists, the sort text of the completion item is
  the decimal numeral of the index filled with zeros on the left up to six characters. Its
  value as a number is the index; it has six characters for an index up to 999999, and
  for a larger index it is the plain decimal numeral of the index, with more than six
  characters: the index is neither cut off at 999999 nor wrapped.
\<close>

theorem getCompletionItem_sortText_padded:
  assumes "exists what"
  shows "\<exists>item. getCompletionItem gs what rt cn sortIdx = Inr item \<and>
           sortText item = format_06d sortIdx \<and>
           digitsValue (sortText item) = sortIdx \<and>
           (sortIdx \<le> 999999 \<longrightarrow> length (sortText item) = 6) \<and>
           (999999 < sortIdx \<longrightarrow>
              sortText item = decimal sortIdx \<and> 6 < length (sortText item))"
  using assms
  by (simp add: getCompletionItem_def digitsValue_format_06d format_06d_small format_06d_large)

text \<open>The theorem at index 42.\<close>

theorem getCompletionItem_sortText_padded_witness:
  "exists 4 \<and>
   (\<exists>item. getCompletionItem exGs 4 None None 42 = Inr item \<and>
      sortText item = ''000042'' \<and> digitsValue (sortText item) = 42 \<and>
      length (sortText item) = 6)"
proof -
  have e: "exists 4" by (simp add: exists_def noSymbol_def)
  from getCompletionItem_sortText_padded [OF e, of exGs None None 42] obtain item where
    i: "getCompletionItem exGs 4 None None 42 = Inr item"
    and s: "sortText item = format_06d 42"
    and v: "digitsValue (sortText item) = 42"
    and l: "length (sortText item) = 6"
    by auto
  have "format_06d 42 = ''000042''"
    by (simp add: format_06d_def decimal.simps) (simp add: eval_nat_numeral)
  with e i s v l show ?thesis by auto
qed

text \<open>
  Claim C7 as it is stated fails at index 1000000: the sort text has seven characters and
  is not the saturated \<open>999999\<close>.
\<close>

theorem getCompletionItem_sortText_saturation_counterexample:
  "getCompletionItem exGs 4 None None 1000000 =
     Inr \<lparr>label = ''foo_bar'', sortText = ''1000000'', itemKind = Some Method\<rparr> \<and>
   ''1000000'' \<noteq> ''999999''"
  by (simp add: getCompletionItem_def format_06d_def decimal.simps methodShortName_def ex_defs)

subsection \<open>Stamping of receiver type and constraint\<close>

text \<open>
  Claim C8. (1) Every candidate of a map returned by \<open>similarMethodsForReceiver\<close> has a
  null receiver type and a null constraint, and stamping such a map returns the same map
  with exactly these two fields of every candidate set to the given values. (2) Stamping
  a vector whose first candidate has a receiver type stops at the first \<^verbatim>\<open>ENFORCE\<close>,
  and at the second when only its constraint is set; stamping a map one of whose
  candidates has either field set stops at one of the two. (3) \<open>allSimilarMethods\<close>
  never stops at either of them. (4) Its result is the freshly produced map of the main
  receiver stamped with the values of the main component, merged with the result of the
  secondary chain when there is one. (5) Every candidate of the result is a candidate
  that the receiver of one component of the chain produced, with null fields, in which
  the two fields were set to the values of that same component and nothing else was
  changed (\<open>stampedOnceBy\<close>).
\<close>

theorem allSimilarMethods_stamps_fresh_candidates:
  "(\<forall>t fresh. similarMethodsForReceiver gs t prefix = Some (Inr fresh) \<longrightarrow>
      (\<forall>(k, c) \<in> candidates fresh. receiverType c = None \<and> constr c = None) \<and>
      (\<forall>rt cn. stampAll rt cn fresh =
         Inr (map (\<lambda>(k, xs). (k, map (\<lambda>c. c\<lparr>receiverType := Some rt, constr := cn\<rparr>) xs))
                fresh))) \<and>
   (\<forall>rt cn c rest.
      (receiverType c \<noteq> None \<longrightarrow> stampVector rt cn (c # rest) = Inl OverwriteReceiverType) \<and>
      (receiverType c = None \<longrightarrow> constr c \<noteq> None \<longrightarrow>
         stampVector rt cn (c # rest) = Inl OverwriteConstr)) \<and>
   (\<forall>rt cn stale k c.
      (k, c) \<in> candidates stale \<longrightarrow> receiverType c \<noteq> None \<or> constr c \<noteq> None \<longrightarrow>
      stampAll rt cn stale = Inl OverwriteReceiverType \<or>
      stampAll rt cn stale = Inl OverwriteConstr) \<and>
   allSimilarMethods gs dispatchResult prefix \<noteq> Some (Inl OverwriteReceiverType) \<and>
   allSimilarMethods gs dispatchResult prefix \<noteq> Some (Inl OverwriteConstr) \<and>
   (\<forall>fresh. similarMethodsForReceiver gs (dcReceiver (main dispatchResult)) prefix =
        Some (Inr fresh) \<longrightarrow>
      allSimilarMethods gs dispatchResult prefix =
        (case secondary dispatchResult of
           None \<Rightarrow>
             Some (Inr (map (\<lambda>(k, xs). (k, map (\<lambda>c. c\<lparr>receiverType :=
                              Some (dcReceiver (main dispatchResult)),
                            constr := dcConstr (main dispatchResult)\<rparr>) xs)) fresh))
         | Some nxt \<Rightarrow>
             (case allSimilarMethods gs nxt prefix of
                None \<Rightarrow> None
              | Some (Inl f) \<Rightarrow> Some (Inl f)
              | Some (Inr others) \<Rightarrow>
                  Some (Inr (mergeSimilarMethods
                    (map (\<lambda>(k, xs). (k, map (\<lambda>c. c\<lparr>receiverType :=
                              Some (dcReceiver (main dispatchResult)),
                            constr := dcConstr (main dispatchResult)\<rparr>) xs)) fresh)
                    others))))) \<and>
   (\<forall>m. allSimilarMethods gs dispatchResult prefix = Some (Inr m) \<longrightarrow>
      (\<forall>(k, c) \<in> candidates m.
         \<exists>component \<in> set (components dispatchResult). stampedOnceBy gs prefix component k c))"
proof (intro conjI allI impI)
  fix t fresh
  assume f: "similarMethodsForReceiver gs t prefix = Some (Inr fresh)"
  from similarMethodsForReceiver_inv [OF f]
  have u: "\<forall>(k, c) \<in> candidates fresh. unstamped c" by auto
  then show "\<forall>(k, c) \<in> candidates fresh. receiverType c = None \<and> constr c = None"
    by (auto simp: unstamped_def)
  fix rt cn
  from stampAll_unstamped [OF u, of rt cn]
  show "stampAll rt cn fresh =
      Inr (map (\<lambda>(k, xs). (k, map (\<lambda>c. c\<lparr>receiverType := Some rt, constr := cn\<rparr>) xs)) fresh)"
    by (simp only: stamp_update)
next
  fix rt cn and c :: SimilarMethod and rest
  assume "receiverType c \<noteq> None"
  then show "stampVector rt cn (c # rest) = Inl OverwriteReceiverType" by simp
next
  fix rt cn and c :: SimilarMethod and rest
  assume "receiverType c = None" "constr c \<noteq> None"
  then show "stampVector rt cn (c # rest) = Inl OverwriteConstr" by simp
next
  fix rt cn stale k c
  assume "(k, c) \<in> candidates stale" "receiverType c \<noteq> None \<or> constr c \<noteq> None"
  then show "stampAll rt cn stale = Inl OverwriteReceiverType \<or>
      stampAll rt cn stale = Inl OverwriteConstr"
    by (rule stampAll_overwrite_faults)
next
  show "allSimilarMethods gs dispatchResult prefix \<noteq> Some (Inl OverwriteReceiverType)"
    using allSimilarMethods_fault [of gs dispatchResult prefix] by auto
  show "allSimilarMethods gs dispatchResult prefix \<noteq> Some (Inl OverwriteConstr)"
    using allSimilarMethods_fault [of gs dispatchResult prefix] by auto
next
  fix fresh
  assume f: "similarMethodsForReceiver gs (dcReceiver (main dispatchResult)) prefix =
      Some (Inr fresh)"
  obtain mc sec lk where dr: "dispatchResult = DispatchResult mc sec lk"
    by (cases dispatchResult)
  from f have f': "similarMethodsForReceiver gs (dcReceiver mc) prefix = Some (Inr fresh)"
    by (simp add: dr)
  show "allSimilarMethods gs dispatchResult prefix =
        (case secondary dispatchResult of
           None \<Rightarrow>
             Some (Inr (map (\<lambda>(k, xs). (k, map (\<lambda>c. c\<lparr>receiverType :=
                              Some (dcReceiver (main dispatchResult)),
                            constr := dcConstr (main dispatchResult)\<rparr>) xs)) fresh))
         | Some nxt \<Rightarrow>
             (case allSimilarMethods gs nxt prefix of
                None \<Rightarrow> None
              | Some (Inl f) \<Rightarrow> Some (Inl f)
              | Some (Inr others) \<Rightarrow>
                  Some (Inr (mergeSimilarMethods
                    (map (\<lambda>(k, xs). (k, map (\<lambda>c. c\<lparr>receiverType :=
                              Some (dcReceiver (main dispatchResult)),
                            constr := dcConstr (main dispatchResult)\<rparr>) xs)) fresh)
                    others))))"
  proof (cases sec)
    case None
    show ?thesis
      unfolding dr None allSimilarMethods_single
      by (simp add: f' stamp_update)
  next
    case (Some nxt)
    show ?thesis
      unfolding dr Some allSimilarMethods_chain [where lk' = lk] allSimilarMethods_single
      by (simp add: f' stamp_update split: option.splits sum.splits)
  qed
next
  fix m
  assume "allSimilarMethods gs dispatchResult prefix = Some (Inr m)"
  then show "\<forall>(k, c) \<in> candidates m.
      \<exists>component \<in> set (components dispatchResult). stampedOnceBy gs prefix component k c"
    by (rule allSimilarMethods_provenance)
qed

text \<open>
  In the example the candidate of class \<open>A\<close> is produced with null fields and stamped
  with the values of the main component; stamping it again stops at the first
  \<^verbatim>\<open>ENFORCE\<close>, and a candidate with only a constraint stops the second. The chain
  with main receiver \<open>A\<close> and secondary receiver \<open>B\<close> returns \<open>foo_bar\<close> with two
  candidates, each carrying the values of the component that produced it.
\<close>

theorem allSimilarMethods_stamps_fresh_candidates_witness:
  "(\<exists>fresh. similarMethodsForReceiver exGs (ClassType 2) ''foo'' = Some (Inr fresh) \<and>
      fresh = [(10, [exCandidate 0 2 4 None None])] \<and>
      stampAll (ClassType 2) (Some 7) fresh =
        Inr [(10, [exCandidate 0 2 4 (Some (ClassType 2)) (Some 7)])]) \<and>
   stampAll (ClassType 3) None [(10, [exCandidate 0 2 4 (Some (ClassType 2)) (Some 7)])] =
     Inl OverwriteReceiverType \<and>
   stampVector (ClassType 3) (Some 7) [exCandidate 0 2 4 None (Some 7)] = Inl OverwriteConstr \<and>
   allSimilarMethods exGs exDispatchAB ''foo'' =
     Some (Inr [(10, [exCandidate 0 2 4 (Some (ClassType 2)) (Some 7),
                      exCandidate 1 3 4 (Some (ClassType 3)) None])]) \<and>
   stampedOnceBy exGs ''foo'' (DispatchComponent (ClassType 3) None) 10
     (exCandidate 1 3 4 (Some (ClassType 3)) None)"
proof -
  note inst = allSimilarMethods_stamps_fresh_candidates [of exGs "''foo''" exDispatchAB]
  note fresh_null = inst [THEN conjunct1]
  note vector_fault = inst [THEN conjunct2, THEN conjunct1]
  note map_fault = inst [THEN conjunct2, THEN conjunct2, THEN conjunct1]
  note result = inst [THEN conjunct2, THEN conjunct2, THEN conjunct2, THEN conjunct2,
      THEN conjunct2, THEN conjunct1]
  note provenance = inst [THEN conjunct2, THEN conjunct2, THEN conjunct2, THEN conjunct2,
      THEN conjunct2, THEN conjunct2]
  have a: "similarMethodsForReceiver exGs (ClassType 2) ''foo'' =
      Some (Inr [(10, [exCandidate 0 2 4 None None])])"
    by (simp add: exSimilarA')
  from fresh_null [rule_format, OF a, THEN conjunct2, rule_format, of "ClassType 2" "Some 7"]
  have st: "stampAll (ClassType 2) (Some 7) [(10, [exCandidate 0 2 4 None None])] =
      Inr [(10, [exCandidate 0 2 4 (Some (ClassType 2)) (Some 7)])]"
    by (simp add: exCandidate_def)
  have "(10, exCandidate 0 2 4 (Some (ClassType 2)) (Some 7)) \<in>
      candidates [(10, [exCandidate 0 2 4 (Some (ClassType 2)) (Some 7)])]"
    and "receiverType (exCandidate 0 2 4 (Some (ClassType 2)) (Some 7)) \<noteq> None \<or>
      constr (exCandidate 0 2 4 (Some (ClassType 2)) (Some 7)) \<noteq> None"
    by (simp_all add: candidates_def exCandidate_def)
  from map_fault [rule_format, OF this, of "ClassType 3" None]
  have ow: "stampAll (ClassType 3) None
        [(10, [exCandidate 0 2 4 (Some (ClassType 2)) (Some 7)])] = Inl OverwriteReceiverType"
    by (simp add: exCandidate_def)
  have "receiverType (exCandidate 0 2 4 None (Some 7)) = None"
    and "constr (exCandidate 0 2 4 None (Some 7)) \<noteq> None"
    by (simp_all add: exCandidate_def)
  from vector_fault [rule_format, THEN conjunct2, rule_format, OF this,
      of "ClassType 3" "Some 7" "[]"]
  have oc: "stampVector (ClassType 3) (Some 7) [exCandidate 0 2 4 None (Some 7)] =
      Inl OverwriteConstr" .
  have main: "similarMethodsForReceiver exGs (dcReceiver (main exDispatchAB)) ''foo'' =
      Some (Inr [(10, [exCandidate 0 2 4 None None])])"
    by (simp add: exDispatchAB_def exSimilarA')
  from result [rule_format, OF main]
  have all: "allSimilarMethods exGs exDispatchAB ''foo'' =
      Some (Inr [(10, [exCandidate 0 2 4 (Some (ClassType 2)) (Some 7),
                       exCandidate 1 3 4 (Some (ClassType 3)) None])])"
    by (simp add: exDispatchAB_def exAllB mergeSimilarMethods_def exCandidate_def)
  have mem: "(10, exCandidate 1 3 4 (Some (ClassType 3)) None) \<in>
      candidates [(10, [exCandidate 0 2 4 (Some (ClassType 2)) (Some 7),
                       exCandidate 1 3 4 (Some (ClassType 3)) None])]"
    by (simp add: candidates_def)
  from provenance [rule_format, OF all] mem obtain component where
    c: "component \<in> set (components exDispatchAB)"
    and s: "stampedOnceBy exGs ''foo'' component 10 (exCandidate 1 3 4 (Some (ClassType 3)) None)"
    by blast
  from c have "component = DispatchComponent (ClassType 2) (Some 7) \<or>
      component = DispatchComponent (ClassType 3) None"
    by (auto simp: exDispatchAB_def exDispatchB_def)
  moreover have "\<not> stampedOnceBy exGs ''foo'' (DispatchComponent (ClassType 2) (Some 7)) 10
      (exCandidate 1 3 4 (Some (ClassType 3)) None)"
  proof
    assume "stampedOnceBy exGs ''foo'' (DispatchComponent (ClassType 2) (Some 7)) 10
      (exCandidate 1 3 4 (Some (ClassType 3)) None)"
    then obtain c0 where "exCandidate 1 3 4 (Some (ClassType 3)) None =
        c0\<lparr>receiverType := Some (ClassType 2), constr := Some 7\<rparr>"
      by (auto simp: stampedOnceBy_def)
    from arg_cong [OF this, of receiverType] show False
      by (simp add: exCandidate_def)
  qed
  ultimately have "stampedOnceBy exGs ''foo'' (DispatchComponent (ClassType 3) None) 10
      (exCandidate 1 3 4 (Some (ClassType 3)) None)"
    using s by auto
  with a st ow oc all show ?thesis by blast
qed

subsection \<open>Receivers without candidates\<close>

text \<open>
  Claim C9. For a receiver type that is none of \<open>ClassType\<close>, \<open>AppliedType\<close>,
  \<open>AndType\<close> and \<open>ProxyType\<close>, \<open>similarMethodsForReceiver\<close> returns the empty
  map. A method call on such a receiver, without a secondary link, is ranked to the empty
  sequence and gives no items, and the enabled handler answers with the empty completion
  list and no error.
\<close>

theorem similarMethodsForReceiver_other_types_empty:
  assumes "\<forall>symbol. t \<noteq> ClassType symbol"
    and "\<forall>klass targs. t \<noteq> AppliedType klass targs"
    and "\<forall>l r. t \<noteq> AndType l r"
    and "\<forall>underlying. t \<noteq> ProxyType underlying"
  shows "similarMethodsForReceiver gs t prefix = Some (Inr []) \<and>
         rankedMethods gs (DispatchResult (DispatchComponent t cn) None lk) prefix =
           Some (Inr []) \<and>
         completionItems gs
           [SendResponse callerSideName (DispatchResult (DispatchComponent t cn) None lk)] =
           Some (Inr []) \<and>
         (queryError (setup gs0 uri position) = None \<longrightarrow>
          responses (setup gs0 uri position) =
            [SendResponse callerSideName (DispatchResult (DispatchComponent t cn) None lk)] \<longrightarrow>
          handleTextDocumentCompletion True setup counter gs0 uri position =
            Some (Inr \<lparr>resultGs = queryGs (setup gs0 uri position),
                       response = \<lparr>responseError = None, responseResult = Some []\<rparr>,
                       processed = counter + 1\<rparr>))"
proof -
  from assms have empty: "similarMethodsForReceiver g t p = Some (Inr [])" for g p
    by (cases t) simp_all
  then have ranked: "rankedMethods g (DispatchResult (DispatchComponent t cn) None lk) p =
      Some (Inr [])" for g p
    by (simp add: rankedMethods_def sortEachName_def fast_sort_def)
  then have items: "completionItems g
      [SendResponse callerSideName (DispatchResult (DispatchComponent t cn) None lk)] =
      Some (Inr [])" for g
    by (simp add: completionItems_def)
  from empty ranked items show ?thesis
    by (simp add: handleTextDocumentCompletion_def)
qed

text \<open>The theorem at a union type.\<close>

theorem similarMethodsForReceiver_other_types_empty_witness:
  "similarMethodsForReceiver exGs (OrType (ClassType 2) (ClassType 3)) ''foo'' = Some (Inr []) \<and>
   handleTextDocumentCompletion True exSetupOr 0 exGs ''file:///a.rb'' (0, 0) =
     Some (Inr \<lparr>resultGs = exGs,
                response = \<lparr>responseError = None, responseResult = Some []\<rparr>,
                processed = 1\<rparr>)"
proof -
  have q: "queryError (exSetupOr exGs ''file:///a.rb'' (0, 0)) = None"
    and r: "responses (exSetupOr exGs ''file:///a.rb'' (0, 0)) =
      [SendResponse 10
         (DispatchResult (DispatchComponent (OrType (ClassType 2) (ClassType 3)) None) None OR)]"
    and g: "queryGs (exSetupOr exGs ''file:///a.rb'' (0, 0)) = exGs"
    by (simp_all add: exSetupOr_def)
  from similarMethodsForReceiver_other_types_empty [of "OrType (ClassType 2) (ClassType 3)" exGs "''foo''" None OR 10 exSetupOr exGs
      "''file:///a.rb''" "(0, 0)" 0] q r g
  show ?thesis by simp
qed

subsection \<open>The feature flag\<close>

text \<open>
  Claim C10. With \<^verbatim>\<open>lspAutocompleteEnabled\<close> off, the handler returns at once: the
  response carries the error \<open>InvalidRequest\<close> and no completion list, the global state
  is handed back as it came, and the counter of processed messages is not touched. The
  result is the same for every query setup, which is therefore not run, as no candidate
  is resolved.
\<close>

theorem handleTextDocumentCompletion_disabled:
  "handleTextDocumentCompletion False setup counter gs uri position =
     Some (Inr \<lparr>resultGs = gs,
                response =
                  \<lparr>responseError =
                     Some (ResponseError InvalidRequest
                       ''The `Autocomplete` LSP feature is experimental and disabled by default.''),
                   responseResult = None\<rparr>,
                processed = counter\<rparr>)"
  by (simp add: handleTextDocumentCompletion_def)

text \<open>The theorem at a request on the example table.\<close>

theorem handleTextDocumentCompletion_disabled_witness:
  "handleTextDocumentCompletion False exSetupOr 0 exGs ''file:///a.rb'' (0, 0) =
     Some (Inr \<lparr>resultGs = exGs,
                response =
                  \<lparr>responseError =
                     Some (ResponseError InvalidRequest
                       ''The `Autocomplete` LSP feature is experimental and disabled by default.''),
                   responseResult = None\<rparr>,
                processed = 0\<rparr>)"
  by (rule handleTextDocumentCompletion_disabled)

end
